theory Spec2Isabelle
  imports Main "HOL-Library.Word"
begin

section \<open>JavaScript strings\<close>

text \<open>
  A JavaScript string is a sequence of UTF-16 code units. Literals of the source are
  written \<open>str ''...''\<close>; all of them are ASCII.
\<close>

type_synonym jschar = "16 word"
type_synonym jsstring = "jschar list"

definition str :: "string \<Rightarrow> jsstring" where
  "str s = map (\<lambda>c. word_of_nat (of_char c)) s"

abbreviation TAB :: jschar where "TAB \<equiv> 9"
abbreviation NL :: jschar where "NL \<equiv> 10"
abbreviation CR :: jschar where "CR \<equiv> 13"
abbreviation SP :: jschar where "SP \<equiv> 32"

text \<open>
  The code units that \<^verbatim>\<open>String.prototype.trim\<close> removes and that the regular
  expression class \<^verbatim>\<open>\s\<close> matches: ECMAScript's WhiteSpace and LineTerminator
  productions (TAB, LF, VT, FF, CR, SP, NBSP, U+1680, U+2000 to U+200A, U+2028, U+2029,
  U+202F, U+205F, U+3000 and the byte order mark U+FEFF).
\<close>

definition isWhiteSpace :: "jschar \<Rightarrow> bool" where
  "isWhiteSpace c \<longleftrightarrow>
     c \<in> set [9, 10, 11, 12, 13, 32, 0xA0, 0x1680, 0x2028, 0x2029, 0x202F, 0x205F,
               0x3000, 0xFEFF]
     \<or> (0x2000 \<le> c \<and> c \<le> 0x200A)"

text \<open>
  \<open>strip_trailing P s\<close> removes the longest suffix of \<open>s\<close> whose code units all
  satisfy \<open>P\<close>: what replacing the first match of \<^verbatim>\<open>/\s+$/\<close> or \<^verbatim>\<open>/\n*$/\<close>
  does (without the \<^verbatim>\<open>m\<close> flag \<^verbatim>\<open>$\<close> matches at the end of the input only,
  and the leftmost match starts where that suffix starts).
\<close>

definition strip_trailing :: "(jschar \<Rightarrow> bool) \<Rightarrow> jsstring \<Rightarrow> jsstring" where
  "strip_trailing P s = rev (dropWhile P (rev s))"

definition trimEnd :: "jsstring \<Rightarrow> jsstring" where
  "trimEnd s = strip_trailing isWhiteSpace s"

definition trim :: "jsstring \<Rightarrow> jsstring" where
  "trim s = dropWhile isWhiteSpace (trimEnd s)"

text \<open>\<^verbatim>\<open>s.endsWith('\n')\<close>\<close>

definition endsWith_newline :: "jsstring \<Rightarrow> bool" where
  "endsWith_newline s \<longleftrightarrow> s \<noteq> [] \<and> last s = NL"

text \<open>\<^verbatim>\<open>s.split(sep)\<close> for a separator of one code unit; the empty string splits
  into one empty piece.\<close>

fun split_on :: "jschar \<Rightarrow> jsstring \<Rightarrow> jsstring list" where
  "split_on sep [] = [[]]"
| "split_on sep (c # s) =
     (if c = sep then [] # split_on sep s
      else (case split_on sep s of l # ls \<Rightarrow> (c # l) # ls | [] \<Rightarrow> [[c]]))"

text \<open>\<^verbatim>\<open>pieces.join(sep)\<close>\<close>

fun join_with :: "jschar \<Rightarrow> jsstring list \<Rightarrow> jsstring" where
  "join_with sep [] = []"
| "join_with sep [l] = l"
| "join_with sep (l # ls) = l @ sep # join_with sep ls"

text \<open>\<^verbatim>\<open>s.replace(/c/g, r)\<close> for a pattern of one code unit.\<close>

definition replace_char :: "jschar \<Rightarrow> jsstring \<Rightarrow> jsstring \<Rightarrow> jsstring" where
  "replace_char c r s = concat (map (\<lambda>x. if x = c then r else [x]) s)"

section \<open>formatter.js: the Python clean-up\<close>

text \<open>\<^verbatim>\<open>.replace(/\r\n/g, '\n')\<close>: matches are taken left to right and do not
  overlap.\<close>

fun replace_crlf :: "jsstring \<Rightarrow> jsstring" where
  "replace_crlf (c # d # s) =
     (if c = CR \<and> d = NL then NL # replace_crlf s else c # replace_crlf (d # s))"
| "replace_crlf s = s"

text \<open>
  \<^verbatim>\<open>.replace(/\n{4,}/g, '\n\n\n')\<close>: at each position the greedy quantifier
  takes the whole run of newlines that starts there; a run of four or more becomes
  three, anything else is copied and the scan moves on by one code unit.
\<close>

function collapse_newlines :: "jsstring \<Rightarrow> jsstring" where
  "collapse_newlines [] = []"
| "collapse_newlines (c # s) =
     (if c = NL \<and> 3 \<le> length (takeWhile (\<lambda>x. x = NL) s)
      then [NL, NL, NL] @ collapse_newlines (dropWhile (\<lambda>x. x = NL) s)
      else c # collapse_newlines s)"
  by pat_completeness auto
termination
  by (relation "measure length") (auto simp: less_Suc_eq_le length_dropWhile_le)

text \<open>\<^verbatim>\<open>.replace(/\n*$/, '\n')\<close>\<close>

definition ensure_final_newline :: "jsstring \<Rightarrow> jsstring" where
  "ensure_final_newline s = strip_trailing (\<lambda>x. x = NL) s @ [NL]"

definition formatPython :: "jsstring \<Rightarrow> jsstring" where
  "formatPython code =
     ensure_final_newline
       (collapse_newlines
         (join_with NL
           (map trimEnd
             (split_on NL
               (replace_char TAB [SP, SP, SP, SP]
                 (replace_char CR [NL]
                   (replace_crlf code)))))))"


text \<open>
  Two predicates used to describe the output of \<open>formatPython\<close>: no line of a
  \<open>tidy\<close> text ends in white space, and \<open>runs_ok n s\<close> says that \<open>s\<close>, read after
  \<open>n\<close> newlines, never holds more than three newlines in a row.
\<close>

fun tidy :: "jsstring \<Rightarrow> bool" where
  "tidy [] = True"
| "tidy (c # s) = ((isWhiteSpace c \<and> c \<noteq> NL \<longrightarrow> s \<noteq> [] \<and> hd s \<noteq> NL) \<and> tidy s)"

fun runs_ok :: "nat \<Rightarrow> jsstring \<Rightarrow> bool" where
  "runs_ok n [] = True"
| "runs_ok n (c # s) = (if c = NL then n < 3 \<and> runs_ok (Suc n) s else runs_ok 0 s)"

section \<open>The runtime: libraries loaded as globals\<close>

text \<open>
  Everything the repository delegates to is a global of the page: js-beautify, Prettier,
  sql-formatter, jsdiff, diff2html and the built-in \<^verbatim>\<open>JSON\<close> object. A library
  call either returns a string or throws; a thrown exception is \<open>Inl\<close> of its message.
\<close>

datatype formatter_name = JavaScript | HTML | CSS | XML | SQL

datatype js_error =
    NoCodeToFormat                  \<comment> \<open>No code to format. Please enter some code in the input editor.\<close>
  | UnsupportedLanguage jsstring    \<comment> \<open>Unsupported language: (the tag)\<close>
  | FormatterNotLoaded formatter_name
                                    \<comment> \<open>(name) formatter ... is not loaded. Check your internet connection.\<close>
  | InvalidJSON jsstring            \<comment> \<open>Invalid JSON: (the parser's message)\<close>
  | LibraryError jsstring           \<comment> \<open>an exception of a library, with its message\<close>
  | TargetRequired                  \<comment> \<open>Target element is required for diff rendering.\<close>
  | JsdiffNotLoaded                 \<comment> \<open>jsdiff library is not loaded. Check your internet connection.\<close>
  | Diff2htmlNotLoaded              \<comment> \<open>diff2html library is not loaded. Check your internet connection.\<close>

text \<open>The options object handed to a js-beautify function; a key that the caller does
  not set is \<open>None\<close>.\<close>

record beautify_options =
  indent_size :: "nat option"
  space_in_empty_paren :: "bool option"
  preserve_newlines :: "bool option"
  max_preserve_newlines :: "nat option"
  end_with_newline :: "bool option"
  wrap_line_length :: "nat option"
  indent_inner_html :: "bool option"
  newline_between_rules :: "bool option"
  content_unformatted :: "jsstring list option"
  unformatted :: "jsstring list option"

definition no_options :: beautify_options where
  "no_options = \<lparr>indent_size = None, space_in_empty_paren = None, preserve_newlines = None,
     max_preserve_newlines = None, end_with_newline = None, wrap_line_length = None,
     indent_inner_html = None, newline_between_rules = None, content_unformatted = None,
     unformatted = None\<rparr>"

type_synonym beautifier = "jsstring \<Rightarrow> beautify_options \<Rightarrow> jsstring + jsstring"

text \<open>What \<^verbatim>\<open>window[name]\<close> holds: nothing (or another falsy thing), a function, or
  some other thing whose member of the same name is a function or is not.\<close>

datatype global = Absent | IsFunction beautifier | IsObject "beautifier option"

text \<open>Prettier's options; a plugin is an opaque handle, and a slot of the plugin array
  is \<open>None\<close> where the source puts \<^verbatim>\<open>undefined\<close> there.\<close>

record prettier_options =
  parser :: jsstring
  plugins :: "nat option list"
  tabWidth :: nat

text \<open>A value that \<^verbatim>\<open>JSON.parse\<close> returns. Numbers are kept by their text: the
  program hands the value back to \<^verbatim>\<open>JSON.stringify\<close> and never looks inside.\<close>

datatype json = JNull | JBool bool | JNumber jsstring | JString jsstring
  | JArray "json list" | JObject "(jsstring \<times> json) list"

text \<open>The \<^verbatim>\<open>language\<close> key handed to sql-formatter: a dialect name, or what an
  inherited key of the lookup table yields (a member of \<^verbatim>\<open>Object.prototype\<close>).\<close>

datatype sql_language = Dialect jsstring | PrototypeMember jsstring

record sql_options =
  language :: sql_language
  indent :: jsstring
  uppercase :: bool
  linesBetweenQueries :: nat

text \<open>The configuration handed to \<^verbatim>\<open>Diff2HtmlUI\<close>.\<close>

record d2h_configuration =
  drawFileList :: bool
  matching :: jsstring
  outputFormat :: jsstring
  highlight :: bool
  colorScheme :: jsstring

text \<open>
  The globals. \<open>Diff\<close> is \<^verbatim>\<open>Diff.createTwoFilesPatch\<close> (old and new file name, old
  and new text, old and new header, lines of context); \<open>Diff2HtmlUI\<close> is construction
  followed by \<^verbatim>\<open>draw()\<close>: the markup it leaves in the target element;
  \<open>sqlFormatter\<close> is \<^verbatim>\<open>sqlFormatter.format\<close>, absent also when that member is not a
  function; \<open>prettierPlugins\<close> is the plugin registry as a list of its properties;
  \<open>data_theme\<close> is the \<^verbatim>\<open>data-theme\<close> attribute of the document element.
\<close>

record runtime =
  window :: "jsstring \<Rightarrow> global"
  prettier :: "(jsstring \<Rightarrow> prettier_options \<Rightarrow> jsstring + jsstring) option"
  prettierPlugins :: "(jsstring \<times> nat) list option"
  JSON_parse :: "jsstring \<Rightarrow> jsstring + json"
  JSON_stringify :: "json \<Rightarrow> nat \<Rightarrow> jsstring"
  sqlFormatter :: "(jsstring \<Rightarrow> sql_options \<Rightarrow> jsstring + jsstring) option"
  Diff :: "(jsstring \<Rightarrow> jsstring \<Rightarrow> jsstring \<Rightarrow> jsstring \<Rightarrow> jsstring \<Rightarrow> jsstring \<Rightarrow> nat
            \<Rightarrow> jsstring) option"
  Diff2HtmlUI :: "(jsstring \<Rightarrow> d2h_configuration \<Rightarrow> jsstring) option"
  data_theme :: "jsstring option"

text \<open>A library call inside the program: its exception travels on as \<open>LibraryError\<close>.\<close>

definition call :: "jsstring + jsstring \<Rightarrow> js_error + jsstring" where
  "call r = (case r of Inl msg \<Rightarrow> Inl (LibraryError msg) | Inr out \<Rightarrow> Inr out)"

text \<open>\<^verbatim>\<open>v || d\<close> on a string that may be undefined: the default replaces undefined
  and the empty string.\<close>

definition or_else :: "jsstring option \<Rightarrow> jsstring \<Rightarrow> jsstring" where
  "or_else v d = (case v of None \<Rightarrow> d | Some s \<Rightarrow> if s = [] then d else s)"

text \<open>A destructuring default \<^verbatim>\<open>{ v = d }\<close>: the default replaces undefined only.\<close>

definition default_to :: "jsstring option \<Rightarrow> jsstring \<Rightarrow> jsstring" where
  "default_to v d = (case v of None \<Rightarrow> d | Some s \<Rightarrow> s)"


section \<open>formatter.js\<close>

definition getBeautify :: "runtime \<Rightarrow> jsstring \<Rightarrow> beautifier option" where
  "getBeautify rt name =
     (case window rt name of
        Absent \<Rightarrow> None
      | IsFunction g \<Rightarrow> Some g
      | IsObject member \<Rightarrow> member)"

definition formatJavaScript :: "runtime \<Rightarrow> jsstring \<Rightarrow> js_error + jsstring" where
  "formatJavaScript rt code =
     (case getBeautify rt (str ''js_beautify'') of
        None \<Rightarrow> Inl (FormatterNotLoaded JavaScript)
      | Some beautify \<Rightarrow>
          call (beautify code
            (no_options\<lparr>indent_size := Some 2, space_in_empty_paren := Some False,
               preserve_newlines := Some True, max_preserve_newlines := Some 2,
               end_with_newline := Some True\<rparr>)))"

text \<open>The plugin array of the Prettier call: \<^verbatim>\<open>[babel, estree]\<close> when the registry
  has a \<^verbatim>\<open>babel\<close> member, every value of the registry otherwise.\<close>

definition json_plugins :: "(jsstring \<times> nat) list \<Rightarrow> nat option list" where
  "json_plugins registry =
     (case map_of registry (str ''babel'') of
        Some babel \<Rightarrow> [Some babel, map_of registry (str ''estree'')]
      | None \<Rightarrow> map (\<lambda>p. Some (snd p)) registry)"

text \<open>The first tier of \<open>formatJSON\<close>: the text Prettier returns, or \<open>None\<close> when
  a global is missing or the call throws (the empty \<^verbatim>\<open>catch\<close>).\<close>

definition tryPrettier :: "runtime \<Rightarrow> jsstring \<Rightarrow> jsstring option" where
  "tryPrettier rt code =
     (case prettier rt of
        None \<Rightarrow> None
      | Some format \<Rightarrow>
          (case prettierPlugins rt of
             None \<Rightarrow> None
           | Some registry \<Rightarrow>
               (case format code
                       \<lparr>parser = str ''json'', plugins = json_plugins registry, tabWidth = 2\<rparr> of
                  Inl e \<Rightarrow> None
                | Inr out \<Rightarrow> Some out)))"

definition formatJSON :: "runtime \<Rightarrow> jsstring \<Rightarrow> js_error + jsstring" where
  "formatJSON rt code =
     (case tryPrettier rt code of
        Some out \<Rightarrow> Inr out
      | None \<Rightarrow>
          (case JSON_parse rt code of
             Inl msg \<Rightarrow> Inl (InvalidJSON msg)
           | Inr parsed \<Rightarrow> Inr (JSON_stringify rt parsed 2 @ [NL])))"

definition formatHTML :: "runtime \<Rightarrow> jsstring \<Rightarrow> js_error + jsstring" where
  "formatHTML rt code =
     (case getBeautify rt (str ''html_beautify'') of
        None \<Rightarrow> Inl (FormatterNotLoaded HTML)
      | Some beautify \<Rightarrow>
          call (beautify code
            (no_options\<lparr>indent_size := Some 2, wrap_line_length := Some 120,
               preserve_newlines := Some True, max_preserve_newlines := Some 2,
               end_with_newline := Some True, indent_inner_html := Some True\<rparr>)))"

definition formatCSS :: "runtime \<Rightarrow> jsstring \<Rightarrow> js_error + jsstring" where
  "formatCSS rt code =
     (case getBeautify rt (str ''css_beautify'') of
        None \<Rightarrow> Inl (FormatterNotLoaded CSS)
      | Some beautify \<Rightarrow>
          call (beautify code
            (no_options\<lparr>indent_size := Some 2, end_with_newline := Some True,
               newline_between_rules := Some True\<rparr>)))"

text \<open>
  \<^verbatim>\<open>languageMap[dialect] || 'sql'\<close>. The table has eight own keys, each mapped to
  itself; a key it does not have is looked up in \<^verbatim>\<open>Object.prototype\<close>, whose members
  are truthy, so such a name yields that member and not the default.
\<close>

definition languageMap_keys :: "jsstring list" where
  "languageMap_keys = map str [''sql'', ''mysql'', ''postgresql'', ''plsql'', ''tsql'',
     ''spark'', ''mariadb'', ''redshift'']"

definition object_prototype_keys :: "jsstring list" where
  "object_prototype_keys = map str [''constructor'', ''__proto__'', ''hasOwnProperty'',
     ''isPrototypeOf'', ''propertyIsEnumerable'', ''toLocaleString'', ''toString'',
     ''valueOf'', ''__defineGetter__'', ''__defineSetter__'', ''__lookupGetter__'',
     ''__lookupSetter__'']"

definition languageMap :: "jsstring \<Rightarrow> sql_language" where
  "languageMap dialect =
     (if dialect \<in> set languageMap_keys then Dialect dialect
      else if dialect \<in> set object_prototype_keys then PrototypeMember dialect
      else Dialect (str ''sql''))"

definition formatSQL :: "runtime \<Rightarrow> jsstring \<Rightarrow> jsstring \<Rightarrow> js_error + jsstring" where
  "formatSQL rt code dialect =
     (case sqlFormatter rt of
        None \<Rightarrow> Inl (FormatterNotLoaded SQL)
      | Some format \<Rightarrow>
          call (format code
            \<lparr>language = languageMap dialect, indent = str ''  '', uppercase = True,
             linesBetweenQueries = 2\<rparr>))"

definition formatXML :: "runtime \<Rightarrow> jsstring \<Rightarrow> js_error + jsstring" where
  "formatXML rt code =
     (case getBeautify rt (str ''html_beautify'') of
        None \<Rightarrow> Inl (FormatterNotLoaded XML)
      | Some beautify \<Rightarrow>
          call (beautify code
            (no_options\<lparr>indent_size := Some 2, wrap_line_length := Some 120,
               preserve_newlines := Some True, max_preserve_newlines := Some 2,
               end_with_newline := Some True, content_unformatted := Some [],
               unformatted := Some []\<rparr>)))"

text \<open>The third argument of \<open>formatCode\<close>; \<^verbatim>\<open>{}\<close> is \<open>\<lparr>sqlDialect = None\<rparr>\<close>.\<close>

record format_options =
  sqlDialect :: "jsstring option"

definition formatCode :: "runtime \<Rightarrow> jsstring \<Rightarrow> jsstring \<Rightarrow> format_options \<Rightarrow> js_error + jsstring"
  where
  "formatCode rt code lang options =
     (if trim code = [] then Inl NoCodeToFormat
      else if lang = str ''javascript'' then formatJavaScript rt code
      else if lang = str ''json'' then formatJSON rt code
      else if lang = str ''html'' then formatHTML rt code
      else if lang = str ''css'' then formatCSS rt code
      else if lang = str ''sql'' then formatSQL rt code (or_else (sqlDialect options) (str ''sql''))
      else if lang = str ''xml'' then formatXML rt code
      else if lang = str ''python'' then Inr (formatPython code)
      else Inl (UnsupportedLanguage lang))"


section \<open>differ.js\<close>

text \<open>What \<^verbatim>\<open>innerHTML\<close> of a target element holds: nothing, one of the two
  notices of \<open>computeAndRenderDiff\<close>, or what diff2html drew.\<close>

datatype markup =
    Blank
  | NoDifferencesNotice   \<comment> \<open>No differences found - both inputs are identical.\<close>
  | BothEmptyNotice       \<comment> \<open>Both inputs are empty.\<close>
  | Rendered jsstring

text \<open>The options object; \<open>targetEl\<close> is the element by its content, \<open>None\<close> when
  the caller passes none.\<close>

record diff_options =
  targetEl :: "markup option"
  viewMode :: "jsstring option"
  fileName :: "jsstring option"
  baseLabel :: "jsstring option"
  otherLabel :: "jsstring option"

record diff_result =
  identical :: bool

text \<open>
  The function returns the content of the target element afterwards, and either the
  exception it throws or the object it returns.
\<close>

definition computeAndRenderDiff ::
  "runtime \<Rightarrow> jsstring \<Rightarrow> jsstring \<Rightarrow> diff_options \<Rightarrow> markup option \<times> (js_error + diff_result)"
  where
  "computeAndRenderDiff rt original modified options =
     (case targetEl options of
        None \<Rightarrow> (None, Inl TargetRequired)
      | Some el \<Rightarrow>
          if original = modified then (Some NoDifferencesNotice, Inr \<lparr>identical = True\<rparr>)
          else if trim original = [] \<and> trim modified = []
          then (Some BothEmptyNotice, Inr \<lparr>identical = True\<rparr>)
          else
            let origText = (if endsWith_newline original then original else original @ [NL]);
                modText = (if endsWith_newline modified then modified else modified @ [NL])
            in (case Diff rt of
                  None \<Rightarrow> (Some Blank, Inl JsdiffNotLoaded)
                | Some createTwoFilesPatch \<Rightarrow>
                    let name = default_to (fileName options) (str ''file'');
                        origHeader = or_else (baseLabel options) (name @ str '' (original)'');
                        modHeader = or_else (otherLabel options) (name @ str '' (modified)'');
                        unifiedDiff =
                          createTwoFilesPatch origHeader modHeader origText modText [] [] 3
                    in (case Diff2HtmlUI rt of
                          None \<Rightarrow> (Some Blank, Inl Diff2htmlNotLoaded)
                        | Some draw \<Rightarrow>
                            (Some (Rendered (draw unifiedDiff
                               \<lparr>drawFileList = False, matching = str ''lines'',
                                outputFormat =
                                  default_to (viewMode options) (str ''line-by-line''),
                                highlight = True,
                                colorScheme =
                                  (if data_theme rt = Some (str ''dark'') then str ''dark''
                                   else str ''light'')\<rparr>)),
                             Inr \<lparr>identical = False\<rparr>))))"

section \<open>The editors: CodeMirror documents\<close>

text \<open>
  An editor keeps its text as a document: a sequence of lines, at least one, none of
  which holds a line break. Text that is put into a document is cut at the matches of
  \<^verbatim>\<open>/\r\n?|\n/\<close> (the editors are created with the default line separator), and
  \<^verbatim>\<open>doc.toString()\<close> joins the lines with a newline. So a text that is written
  and read back has every CRLF and every CR turned into LF.
\<close>

fun splitLines :: "jsstring \<Rightarrow> jsstring list" where
  "splitLines [] = [[]]"
| "splitLines [c] = (if c = CR \<or> c = NL then [[], []] else [[c]])"
| "splitLines (c # d # s) =
     (if c = CR \<and> d = NL then [] # splitLines s
      else if c = CR \<or> c = NL then [] # splitLines (d # s)
      else (case splitLines (d # s) of l # ls \<Rightarrow> (c # l) # ls | [] \<Rightarrow> [[c]]))"

typedef document =
  "{ls :: jsstring list. ls \<noteq> [] \<and> (\<forall>l\<in>set ls. CR \<notin> set l \<and> NL \<notin> set l)}"
  by (rule exI [of _ "[[]]"]) simp

setup_lifting type_definition_document

text \<open>\<open>getEditorContent\<close> is \<^verbatim>\<open>editor.view.state.doc.toString()\<close>;
  \<open>setEditorContent\<close> is the document an editor holds after the dispatch that replaces
  all of its text by \<^verbatim>\<open>content\<close>.\<close>

lift_definition getEditorContent :: "document \<Rightarrow> jsstring" is "join_with NL" .

lift_definition setEditorContent :: "jsstring \<Rightarrow> document" is splitLines
proof -
  fix s :: jsstring
  show "splitLines s \<noteq> [] \<and> (\<forall>l\<in>set (splitLines s). CR \<notin> set l \<and> NL \<notin> set l)"
    by (induction s rule: splitLines.induct) (auto split: list.splits)
qed

section \<open>app.js: the page and its handlers\<close>

datatype key = KeyA | KeyB | KeyC

definition key_name :: "key \<Rightarrow> jsstring" where
  "key_name k = (case k of KeyA \<Rightarrow> str ''A'' | KeyB \<Rightarrow> str ''B'' | KeyC \<Rightarrow> str ''C'')"

text \<open>What \<open>showStatus\<close> is called with.\<close>

datatype message =
    EnterAtLeastTwo        \<comment> \<open>Enter content in at least two editors\<close>
  | BaseEditorEmpty        \<comment> \<open>Base editor is empty\<close>
  | EnterOneOther          \<comment> \<open>Enter content in at least one other editor\<close>
  | NoDifferencesFound     \<comment> \<open>No differences found\<close>
  | DiffComputed nat       \<comment> \<open>Diff computed, (n) comparison(s)\<close>
  | ContentsCycled         \<comment> \<open>Contents cycled\<close>
  | FormattedOk jsstring   \<comment> \<open>Formatted (the tag, in upper case) successfully\<close>
  | Thrown js_error        \<comment> \<open>the message of a caught exception\<close>

datatype status = Success message | Error message

text \<open>One child of the diff output container: the two titles of its header, and its
  body.\<close>

record diff_panel =
  base_name :: jsstring
  other_name :: jsstring
  body :: markup

text \<open>
  The part of the page the handlers read and write: the documents of the three diff
  editors and of the two format editors, the value of each title input (\<open>None\<close> where
  the page has no such input), \<^verbatim>\<open>diffState.primary\<close>, the values of the four select
  elements, the children of the diff output container and the status bar.
\<close>

record page =
  editors :: "key \<Rightarrow> document"
  format_input :: document
  format_output :: document
  title_inputs :: "key \<Rightarrow> jsstring option"
  primary :: key
  diff_view_mode :: jsstring
  diff_language :: jsstring
  format_language :: jsstring
  sql_dialect :: jsstring
  container :: "diff_panel list"
  status_bar :: "status option"

definition showStatus :: "status \<Rightarrow> page \<Rightarrow> page" where
  "showStatus m pg = pg\<lparr>status_bar := Some m\<rparr>"

definition getDiffEditorTitle :: "page \<Rightarrow> key \<Rightarrow> jsstring" where
  "getDiffEditorTitle pg k =
     (case title_inputs pg k of
        None \<Rightarrow> str ''Editor '' @ key_name k
      | Some v \<Rightarrow> if trim v = [] then str ''Editor '' @ key_name k else trim v)"

definition handleFormat :: "runtime \<Rightarrow> page \<Rightarrow> page" where
  "handleFormat rt pg =
     (case formatCode rt (getEditorContent (format_input pg)) (format_language pg)
             \<lparr>sqlDialect = Some (sql_dialect pg)\<rparr> of
        Inr formatted \<Rightarrow>
          showStatus (Success (FormattedOk (format_language pg)))
            (pg\<lparr>format_output := setEditorContent formatted\<rparr>)
      | Inl err \<Rightarrow> showStatus (Error (Thrown err)) pg)"

definition allKeys :: "key list" where
  "allKeys = [KeyA, KeyB, KeyC]"

definition hasContent :: "page \<Rightarrow> key \<Rightarrow> bool" where
  "hasContent pg k \<longleftrightarrow> trim (getEditorContent (editors pg k)) \<noteq> []"

definition keysWithContent :: "page \<Rightarrow> key list" where
  "keysWithContent pg = filter (hasContent pg) allKeys"

definition otherKeys :: "page \<Rightarrow> key list" where
  "otherKeys pg = filter (\<lambda>k. k \<noteq> primary pg) allKeys"

definition othersWithContent :: "page \<Rightarrow> key list" where
  "othersWithContent pg = filter (hasContent pg) (otherKeys pg)"

text \<open>One round of the formatting loop of \<open>handleDiff\<close>: the inner \<^verbatim>\<open>try\<close> with
  its empty \<^verbatim>\<open>catch\<close>. The call passes no third argument.\<close>

definition formatEditor :: "runtime \<Rightarrow> jsstring \<Rightarrow> page \<Rightarrow> key \<Rightarrow> page" where
  "formatEditor rt lang pg k =
     (let raw = getEditorContent (editors pg k)
      in case formatCode rt raw lang \<lparr>sqlDialect = None\<rparr> of
           Inr formatted \<Rightarrow> pg\<lparr>editors := (editors pg)(k := setEditorContent formatted)\<rparr>
         | Inl err \<Rightarrow> pg)"

definition formatEditors :: "runtime \<Rightarrow> jsstring \<Rightarrow> key list \<Rightarrow> page \<Rightarrow> page" where
  "formatEditors rt lang ks pg = foldl (formatEditor rt lang) pg ks"

text \<open>
  The comparison loop of \<open>handleDiff\<close>, over the keys that are left, with the flag
  \<^verbatim>\<open>allIdentical\<close>. Each round appends a panel to the container and then calls
  \<open>computeAndRenderDiff\<close> on its body; an exception leaves the loop with the panel in
  place.
\<close>

fun compareEditors ::
  "runtime \<Rightarrow> jsstring \<Rightarrow> jsstring \<Rightarrow> jsstring \<Rightarrow> jsstring \<Rightarrow> key list \<Rightarrow> bool \<Rightarrow> page
     \<Rightarrow> page \<times> (js_error + bool)"
  where
  "compareEditors rt baseContent baseTitle mode lang [] allIdentical pg = (pg, Inr allIdentical)"
| "compareEditors rt baseContent baseTitle mode lang (otherKey # ks) allIdentical pg =
     (let otherContent = getEditorContent (editors pg otherKey);
          otherTitle = getDiffEditorTitle pg otherKey;
          (el, result) =
            computeAndRenderDiff rt baseContent otherContent
              \<lparr>targetEl = Some Blank, viewMode = Some mode,
               fileName = Some (str ''file.'' @ lang),
               baseLabel = Some baseTitle, otherLabel = Some otherTitle\<rparr>;
          pg' = pg\<lparr>container := container pg @
                  [\<lparr>base_name = baseTitle, other_name = otherTitle,
                    body = (case el of None \<Rightarrow> Blank | Some m \<Rightarrow> m)\<rparr>]\<rparr>
      in case result of
           Inl err \<Rightarrow> (pg', Inl err)
         | Inr r \<Rightarrow>
             compareEditors rt baseContent baseTitle mode lang ks
               (if \<not> identical r then False else allIdentical) pg')"

definition handleDiff :: "runtime \<Rightarrow> page \<Rightarrow> page" where
  "handleDiff rt pg0 =
     (let baseKey = primary pg0;
          mode = diff_view_mode pg0;
          lang = diff_language pg0;
          pg = pg0\<lparr>container := []\<rparr>
      in if \<not> hasContent pg baseKey \<and> length (othersWithContent pg) = 0
         then showStatus (Error EnterAtLeastTwo) pg
         else if \<not> hasContent pg baseKey
         then showStatus (Error BaseEditorEmpty) pg
         else if length (othersWithContent pg) = 0
         then showStatus (Error EnterOneOther) pg
         else
           let pg1 = formatEditors rt lang (keysWithContent pg) pg;
               baseContent = getEditorContent (editors pg1 baseKey);
               baseTitle = getDiffEditorTitle pg1 baseKey;
               (pg2, outcome) =
                 compareEditors rt baseContent baseTitle mode lang (othersWithContent pg)
                   True pg1
           in case outcome of
                Inl err \<Rightarrow> showStatus (Error (Thrown err)) pg2
              | Inr allIdentical \<Rightarrow>
                  if allIdentical then showStatus (Success NoDifferencesFound) pg2
                  else showStatus (Success (DiffComputed (length (othersWithContent pg)))) pg2)"

text \<open>\<open>handleCycle\<close>: a title that has no input is read as the empty string and is
  not written.\<close>

definition handleCycle :: "page \<Rightarrow> page" where
  "handleCycle pg =
     (let contents = map (\<lambda>k. getEditorContent (editors pg k)) allKeys;
          titles = map (\<lambda>k. case title_inputs pg k of Some v \<Rightarrow> v | None \<Rightarrow> []) allKeys;
          pg1 = pg\<lparr>editors := (editors pg)(KeyA := setEditorContent (contents ! 2))\<rparr>;
          pg2 = pg1\<lparr>editors := (editors pg1)(KeyB := setEditorContent (contents ! 0))\<rparr>;
          pg3 = pg2\<lparr>editors := (editors pg2)(KeyC := setEditorContent (contents ! 1))\<rparr>;
          pg4 = (if title_inputs pg3 KeyA \<noteq> None
                 then pg3\<lparr>title_inputs := (title_inputs pg3)(KeyA := Some (titles ! 2))\<rparr>
                 else pg3);
          pg5 = (if title_inputs pg4 KeyB \<noteq> None
                 then pg4\<lparr>title_inputs := (title_inputs pg4)(KeyB := Some (titles ! 0))\<rparr>
                 else pg4);
          pg6 = (if title_inputs pg5 KeyC \<noteq> None
                 then pg5\<lparr>title_inputs := (title_inputs pg5)(KeyC := Some (titles ! 1))\<rparr>
                 else pg5)
      in showStatus (Success ContentsCycled) pg6)"

section \<open>Auxiliary definitions for the statements\<close>

text \<open>
  The permutation that \<open>handleCycle\<close> is meant to apply: the new content of a
  slot is the old content of \<open>rotation\<close> of that slot.
\<close>

definition rotation :: "key \<Rightarrow> key" where
  "rotation k = (case k of KeyA \<Rightarrow> KeyC | KeyB \<Rightarrow> KeyA | KeyC \<Rightarrow> KeyB)"

text \<open>
  The page after the formatting loop of \<open>handleDiff\<close>, and the call of
  \<open>computeAndRenderDiff\<close> that the comparison loop makes for a key on such a page: the
  base is the primary editor, the labels are the two titles.
\<close>

definition preformatted :: "runtime \<Rightarrow> page \<Rightarrow> page" where
  "preformatted rt pg = formatEditors rt (diff_language pg) (keysWithContent pg) pg"

definition comparison :: "runtime \<Rightarrow> page \<Rightarrow> key \<Rightarrow> markup option \<times> (js_error + diff_result)" where
  "comparison rt pg k =
     computeAndRenderDiff rt (getEditorContent (editors pg (primary pg)))
         (getEditorContent (editors pg k))
       \<lparr>targetEl = Some Blank, viewMode = Some (diff_view_mode pg),
        fileName = Some (str ''file.'' @ diff_language pg),
        baseLabel = Some (getDiffEditorTitle pg (primary pg)),
        otherLabel = Some (getDiffEditorTitle pg k)\<rparr>"

text \<open>
  What one round of the formatting loop leaves in an editor, and the flag the
  comparison loop computes from the results of its calls, in their order.
\<close>

definition formatted_or_raw :: "runtime \<Rightarrow> jsstring \<Rightarrow> document \<Rightarrow> document" where
  "formatted_or_raw rt lang doc =
     (case formatCode rt (getEditorContent doc) lang \<lparr>sqlDialect = None\<rparr> of
        Inr formatted \<Rightarrow> setEditorContent formatted
      | Inl err \<Rightarrow> doc)"

fun aggregate :: "(js_error + diff_result) list \<Rightarrow> bool \<Rightarrow> js_error + bool" where
  "aggregate [] b = Inr b"
| "aggregate (Inl e # rs) b = Inl e"
| "aggregate (Inr r # rs) b = aggregate rs (b \<and> identical r)"

text \<open>
  The panel and the call of one round of \<open>compareEditors\<close>, named so that the
  lemmas on the loop can speak of them.
\<close>

definition panel_of :: "jsstring \<Rightarrow> page \<Rightarrow> key \<Rightarrow> markup option \<Rightarrow> diff_panel" where
  "panel_of bt pg k el =
     \<lparr>base_name = bt, other_name = getDiffEditorTitle pg k,
      body = (case el of None \<Rightarrow> Blank | Some m \<Rightarrow> m)\<rparr>"

definition cmp ::
  "runtime \<Rightarrow> jsstring \<Rightarrow> jsstring \<Rightarrow> jsstring \<Rightarrow> jsstring \<Rightarrow> page \<Rightarrow> key
     \<Rightarrow> markup option \<times> (js_error + diff_result)" where
  "cmp rt bc bt mode lang pg k =
     computeAndRenderDiff rt bc (getEditorContent (editors pg k))
       \<lparr>targetEl = Some Blank, viewMode = Some mode, fileName = Some (str ''file.'' @ lang),
        baseLabel = Some bt, otherLabel = Some (getDiffEditorTitle pg k)\<rparr>"



section \<open>Example runtimes and pages\<close>

text \<open>
  The white space that the JSON grammar allows around a value, and a text without it.
\<close>

definition json_ws :: "jschar \<Rightarrow> bool" where
  "json_ws c \<longleftrightarrow> c = SP \<or> c = TAB \<or> c = NL \<or> c = CR"

definition json_trim :: "jsstring \<Rightarrow> jsstring" where
  "json_trim s = dropWhile json_ws (strip_trailing json_ws s)"

text \<open>
  A runtime with jsdiff and diff2html loaded and no formatter library; its
  \<^verbatim>\<open>JSON.parse\<close> accepts the number \<^verbatim>\<open>1\<close>, with white space around it, and
  nothing else. The others differ from it in one library each: an SQL formatter that
  shows the dialect it was given, an SQL formatter that answers with a CRLF line break,
  one that answers with the same two lines for every text but with CRLF for one and LF for
  the others, a Prettier that accepts every text, and an \<^verbatim>\<open>html_beautify\<close> that shows whether
  it was asked to indent the inner html.
\<close>

definition demo_runtime :: runtime where
  "demo_runtime =
     \<lparr>window = (\<lambda>name. Absent), prettier = None, prettierPlugins = None,
      JSON_parse = (\<lambda>s. if json_trim s = str ''1'' then Inr (JNumber (str ''1''))
                        else Inl (str ''Unexpected token'')),
      JSON_stringify = (\<lambda>v n. case v of JNumber t \<Rightarrow> t | _ \<Rightarrow> str ''null''),
      sqlFormatter = None,
      Diff = Some (\<lambda>oldName newName oldText newText oldHeader newHeader n.
                     str ''--- '' @ oldName @ str '' +++ '' @ newName @ [NL] @ oldText @ newText),
      Diff2HtmlUI = Some (\<lambda>patch config. patch),
      data_theme = None\<rparr>"

definition sql_runtime :: runtime where
  "sql_runtime = demo_runtime\<lparr>sqlFormatter :=
     Some (\<lambda>code options. case language options of
             Dialect d \<Rightarrow> Inr (d @ str '': '' @ code)
           | PrototypeMember m \<Rightarrow> Inl m)\<rparr>"

definition crlf_runtime :: runtime where
  "crlf_runtime = demo_runtime\<lparr>sqlFormatter :=
     Some (\<lambda>code options. Inr (str ''A'' @ [CR, NL] @ str ''B''))\<rparr>"

definition mixed_breaks_runtime :: runtime where
  "mixed_breaks_runtime = demo_runtime\<lparr>sqlFormatter :=
     Some (\<lambda>code options. if code = str ''a'' then Inr (str ''x'' @ [CR, NL] @ str ''y'')
                           else Inr (str ''x'' @ [NL] @ str ''y''))\<rparr>"


definition probe_runtime :: runtime where
  "probe_runtime = demo_runtime\<lparr>window := (\<lambda>name.
     if name = str ''html_beautify''
     then IsFunction (\<lambda>code options.
            if indent_inner_html options = Some True then Inr (str ''inner html indented'')
            else Inr (str ''inner html not indented''))
     else Absent)\<rparr>"

definition demo_options :: diff_options where
  "demo_options = \<lparr>targetEl = Some Blank, viewMode = None, fileName = None,
     baseLabel = None, otherLabel = None\<rparr>"

text \<open>
  Pages: three editors holding \<^verbatim>\<open>x\<close> with base A, and variations of it.
\<close>

definition demo_page :: page where
  "demo_page =
     \<lparr>editors = (\<lambda>k. setEditorContent (str ''x'')),
      format_input = setEditorContent [], format_output = setEditorContent [],
      title_inputs = (\<lambda>k. Some []), primary = KeyA,
      diff_view_mode = str ''line-by-line'', diff_language = str ''json'',
      format_language = str ''json'', sql_dialect = str ''mysql'',
      container = [], status_bar = None\<rparr>"

definition only_base_page :: page where
  "only_base_page = demo_page\<lparr>editors :=
     (\<lambda>k. if k = KeyA then setEditorContent (str ''x'') else setEditorContent [])\<rparr>"

definition only_other_page :: page where
  "only_other_page = demo_page\<lparr>editors :=
     (\<lambda>k. if k = KeyB then setEditorContent (str ''x'') else setEditorContent [])\<rparr>"

definition empty_page :: page where
  "empty_page = demo_page\<lparr>editors := (\<lambda>k. setEditorContent [])\<rparr>"

definition mixed_page :: page where
  "mixed_page = demo_page\<lparr>editors :=
     (\<lambda>k. case k of KeyA \<Rightarrow> setEditorContent (str ''1'') | KeyB \<Rightarrow> setEditorContent (str ''b'')
         | KeyC \<Rightarrow> setEditorContent [])\<rparr>"

definition ab_page :: page where
  "ab_page = demo_page\<lparr>editors :=
     (\<lambda>k. case k of KeyA \<Rightarrow> setEditorContent (str ''a'') | KeyB \<Rightarrow> setEditorContent (str ''b'')
         | KeyC \<Rightarrow> setEditorContent []), diff_language := str ''sql''\<rparr>"

definition sql_page :: page where
  "sql_page = demo_page\<lparr>editors := (\<lambda>k. setEditorContent (str ''select 1'')),
     diff_language := str ''sql'', format_input := setEditorContent (str ''select 1''),
     format_language := str ''sql''\<rparr>"

definition titled_page :: page where
  "titled_page = demo_page\<lparr>
     editors := (\<lambda>k. case k of KeyA \<Rightarrow> setEditorContent (str ''a'')
                   | KeyB \<Rightarrow> setEditorContent (str ''b'') | KeyC \<Rightarrow> setEditorContent (str ''c'')),
     title_inputs := (\<lambda>k. case k of KeyA \<Rightarrow> Some (str ''first'') | KeyB \<Rightarrow> Some (str ''second'')
                        | KeyC \<Rightarrow> Some [])\<rparr>"

section \<open>Lemmas on strings\<close>

lemma strip_trailing_Nil: "strip_trailing P [] = []"
  by (simp add: strip_trailing_def)

lemma strip_trailing_Cons:
  "strip_trailing P (c # s) = (if P c \<and> (\<forall>x\<in>set s. P x) then [] else c # strip_trailing P s)"
  unfolding strip_trailing_def
  by (auto simp: dropWhile_append)

lemma strip_trailing_eq_Nil: "strip_trailing P s = [] \<longleftrightarrow> (\<forall>x\<in>set s. P x)"
  by (simp add: strip_trailing_def)

lemma set_strip_trailing: "set (strip_trailing P s) \<subseteq> set s"
  unfolding strip_trailing_def using set_dropWhileD by fastforce

lemma strip_trailing_idem: "strip_trailing P (strip_trailing P s) = strip_trailing P s"
  by (simp add: strip_trailing_def)

lemma replace_crlf_id: "CR \<notin> set s \<Longrightarrow> replace_crlf s = s"
  by (induction s rule: replace_crlf.induct) auto

lemma replace_char_id: "c \<notin> set s \<Longrightarrow> replace_char c r s = s"
  by (induction s) (auto simp: replace_char_def)

lemma set_replace_char: "set (replace_char c r s) \<subseteq> (set s - {c}) \<union> set r"
  by (induction s) (auto simp: replace_char_def)

lemma split_on_nonempty: "split_on sep s \<noteq> []"
  by (induction s) (auto split: list.splits)

lemma join_split: "join_with sep (split_on sep s) = s"
proof (induction s)
  case Nil
  show ?case by simp
next
  case (Cons c s)
  obtain l ls where sp: "split_on sep s = l # ls"
    using split_on_nonempty [of sep s] by (cases "split_on sep s") auto
  show ?case
  proof (cases "c = sep")
    case True
    with Cons sp show ?thesis by simp
  next
    case False
    with Cons sp show ?thesis by (cases ls) auto
  qed
qed

lemma split_no_sep: "sep \<notin> set l \<Longrightarrow> split_on sep l = [l]"
  by (induction l) auto

lemma split_append_sep: "sep \<notin> set l \<Longrightarrow> split_on sep (l @ sep # r) = l # split_on sep r"
  by (induction l) auto

lemma split_join:
  "ls \<noteq> [] \<Longrightarrow> \<forall>l\<in>set ls. sep \<notin> set l \<Longrightarrow> split_on sep (join_with sep ls) = ls"
  by (induction sep ls rule: join_with.induct) (auto simp: split_no_sep split_append_sep)

lemma split_pieces_no_sep: "l \<in> set (split_on sep s) \<Longrightarrow> sep \<notin> set l"
proof (induction s arbitrary: l)
  case Nil
  then show ?case by simp
next
  case (Cons c s)
  obtain k ks where sp: "split_on sep s = k # ks"
    using split_on_nonempty [of sep s] by (cases "split_on sep s") auto
  show ?case
  proof (cases "c = sep")
    case True
    with Cons show ?thesis by auto
  next
    case False
    with Cons.prems sp have "l = c # k \<or> l \<in> set ks" by auto
    then show ?thesis
      using Cons.IH [of k] Cons.IH [of l] sp False by auto
  qed
qed

lemma set_split_pieces: "l \<in> set (split_on sep s) \<Longrightarrow> set l \<subseteq> set s"
proof (induction s arbitrary: l)
  case Nil
  then show ?case by simp
next
  case (Cons c s)
  obtain k ks where sp: "split_on sep s = k # ks"
    using split_on_nonempty [of sep s] by (cases "split_on sep s") auto
  show ?case
  proof (cases "c = sep")
    case True
    with Cons show ?thesis by auto
  next
    case False
    with Cons.prems sp have "l = c # k \<or> l \<in> set ks" by auto
    then show ?thesis
      using Cons.IH [of k] Cons.IH [of l] sp False by auto
  qed
qed

lemma set_join: "set (join_with sep ls) \<subseteq> insert sep (\<Union>l\<in>set ls. set l)"
  by (induction sep ls rule: join_with.induct) auto

lemma hd_split_Nil: "hd (split_on sep s) = [] \<longleftrightarrow> s = [] \<or> hd s = sep"
  using split_on_nonempty [of sep "tl s"]
  by (cases s) (auto split: list.splits)




lemma trimEnd_Cons:
  "trimEnd (c # l) = (if isWhiteSpace c \<and> (\<forall>x\<in>set l. isWhiteSpace x) then [] else c # trimEnd l)"
  by (simp add: trimEnd_def strip_trailing_Cons)

lemma trimEnd_id_Nil: "trimEnd l = l \<Longrightarrow> (\<forall>x\<in>set l. isWhiteSpace x) \<longleftrightarrow> l = []"
  using strip_trailing_eq_Nil [of isWhiteSpace l] by (auto simp: trimEnd_def)

lemma tidy_iff_lines: "tidy s \<longleftrightarrow> (\<forall>l\<in>set (split_on NL s). trimEnd l = l)"
proof (induction s)
  case Nil
  show ?case by (simp add: trimEnd_def strip_trailing_Nil)
next
  case (Cons c s)
  obtain k ks where sp: "split_on NL s = k # ks"
    using split_on_nonempty [of NL s] by (cases "split_on NL s") auto
  have k: "k = [] \<longleftrightarrow> s = [] \<or> hd s = NL"
    using hd_split_Nil [of NL s] sp by simp
  have NLws: "isWhiteSpace NL" by (simp add: isWhiteSpace_def)
  show ?case
  proof (cases "c = NL")
    case True
    with Cons show ?thesis by (simp add: trimEnd_def strip_trailing_Nil)
  next
    case False
    have "trimEnd (c # k) = c # k \<longleftrightarrow> trimEnd k = k \<and> \<not> (isWhiteSpace c \<and> k = [])"
      using trimEnd_id_Nil [of k] by (auto simp: trimEnd_Cons)
    with False Cons sp k show ?thesis by auto
  qed
qed

lemma tidy_tl: "tidy (c # s) \<Longrightarrow> tidy s"
  by simp

lemma tidy_dropWhile: "tidy s \<Longrightarrow> tidy (dropWhile P s)"
  by (induction s) auto

lemma collapse_Nil_iff: "collapse_newlines s = [] \<longleftrightarrow> s = []"
  by (cases s) auto

lemma hd_collapse: "hd (collapse_newlines s) = hd s"
  by (cases s) auto

lemma tidy_collapse: "tidy s \<Longrightarrow> tidy (collapse_newlines s)"
proof (induction s rule: collapse_newlines.induct)
  case 1
  show ?case by simp
next
  case (2 c s)
  show ?case
  proof (cases "c = NL \<and> 3 \<le> length (takeWhile (\<lambda>x. x = NL) s)")
    case True
    with 2 show ?thesis by (simp add: tidy_dropWhile)
  next
    case False
    with 2 show ?thesis by (auto simp: collapse_Nil_iff hd_collapse)
  qed
qed

lemma ensure_final_newline_Nil: "ensure_final_newline [] = [NL]"
  by (simp add: ensure_final_newline_def strip_trailing_Nil)

lemma ensure_final_newline_Cons:
  "ensure_final_newline (c # s) =
     (if c = NL \<and> (\<forall>x\<in>set s. x = NL) then [NL] else c # ensure_final_newline s)"
  by (simp add: ensure_final_newline_def strip_trailing_Cons)

lemma tidy_ensure_final_newline: "tidy s \<Longrightarrow> tidy (ensure_final_newline s)"
proof (induction s)
  case Nil
  show ?case by (simp add: ensure_final_newline_Nil)
next
  case (Cons c s)
  show ?case
  proof (cases "c = NL \<and> (\<forall>x\<in>set s. x = NL)")
    case True
    then show ?thesis by (simp add: ensure_final_newline_Cons)
  next
    case False
    have "s \<noteq> [] \<Longrightarrow> hd s \<noteq> NL \<Longrightarrow> hd (ensure_final_newline s) \<noteq> NL"
      by (cases s) (auto simp: ensure_final_newline_Cons)
    moreover have "ensure_final_newline s \<noteq> []"
      by (simp add: ensure_final_newline_def)
    ultimately show ?thesis
      using False Cons by (auto simp: ensure_final_newline_Cons)
  qed
qed

lemma runs_ok_replicate: "runs_ok n (replicate k NL @ s) \<longleftrightarrow> (k = 0 \<or> n + k \<le> 3) \<and> runs_ok (n + k) s"
  by (induction k arbitrary: n) auto

lemma runs_ok_id: "runs_ok n s \<Longrightarrow> collapse_newlines s = s"
proof (induction s arbitrary: n rule: collapse_newlines.induct)
  case 1
  show ?case by simp
next
  case (2 c s)
  show ?case
  proof (cases "c = NL \<and> 3 \<le> length (takeWhile (\<lambda>x. x = NL) s)")
    case True
    define k where "k = length (takeWhile (\<lambda>x. x = NL) s)"
    have "s = replicate k NL @ dropWhile (\<lambda>x. x = NL) s"
      unfolding k_def
      by (metis (mono_tags, lifting) takeWhile_dropWhile_id replicate_length_same set_takeWhileD)
    then have "c # s = replicate (Suc k) NL @ dropWhile (\<lambda>x. x = NL) s"
      using True by simp
    with "2.prems" have "n + Suc k \<le> 3"
      using runs_ok_replicate [of n "Suc k" "dropWhile (\<lambda>x. x = NL) s"] by simp
    with True k_def show ?thesis by simp
  next
    case False
    with 2 show ?thesis by (auto split: if_splits)
  qed
qed

lemma runs_ok_collapse:
  "n + min 3 (length (takeWhile (\<lambda>x. x = NL) s)) \<le> 3 \<Longrightarrow> runs_ok n (collapse_newlines s)"
proof (induction s arbitrary: n rule: collapse_newlines.induct)
  case 1
  show ?case by simp
next
  case (2 c s)
  show ?case
  proof (cases "c = NL \<and> 3 \<le> length (takeWhile (\<lambda>x. x = NL) s)")
    case True
    have "takeWhile (\<lambda>x. x = NL) (dropWhile (\<lambda>x. x = NL) s) = []"
      by (metis (mono_tags, lifting) dropWhile_eq_Nil_conv hd_dropWhile takeWhile.simps(1) takeWhile_eq_Nil_iff)
    with True 2 show ?thesis by simp
  next
    case False
    with 2 show ?thesis by (auto split: if_splits)
  qed
qed

lemma runs_ok_ensure_final_newline:
  "runs_ok n s \<Longrightarrow> ((\<forall>x\<in>set s. x = NL) \<longrightarrow> n < 3) \<Longrightarrow> runs_ok n (ensure_final_newline s)"
proof (induction s arbitrary: n)
  case Nil
  then show ?case by (simp add: ensure_final_newline_Nil)
next
  case (Cons c s)
  then show ?case by (auto simp: ensure_final_newline_Cons split: if_splits)
qed

lemma ensure_final_newline_idem: "ensure_final_newline (ensure_final_newline s) = ensure_final_newline s"
  by (simp add: ensure_final_newline_def strip_trailing_def)


lemma notin_replace_char:
  "b \<notin> set r \<Longrightarrow> b \<notin> set s \<or> b = c \<Longrightarrow> b \<notin> set (replace_char c r s)"
  by (induction s) (auto simp: replace_char_def)

lemma set_collapse: "set (collapse_newlines s) \<subseteq> set s"
proof (induction s rule: collapse_newlines.induct)
  case 1
  show ?case by simp
next
  case (2 c s)
  have "set (dropWhile (\<lambda>x. x = NL) s) \<subseteq> set s"
    by (auto dest: set_dropWhileD)
  with 2 show ?case by (auto split: if_splits)
qed

lemma set_ensure_final_newline: "set (ensure_final_newline s) \<subseteq> insert NL (set s)"
  using set_strip_trailing [of "\<lambda>x. x = NL" s] by (auto simp: ensure_final_newline_def)

lemma set_strip_lines: "set (join_with NL (map trimEnd (split_on NL s))) \<subseteq> insert NL (set s)"
proof -
  have "set (trimEnd l) \<subseteq> set s" if "l \<in> set (split_on NL s)" for l
    using that set_split_pieces [of l NL s] set_strip_trailing [of isWhiteSpace l]
    by (auto simp: trimEnd_def)
  then have "(\<Union>l\<in>set (map trimEnd (split_on NL s)). set l) \<subseteq> set s"
    by auto
  then show ?thesis
    using set_join [of NL "map trimEnd (split_on NL s)"] by blast
qed

lemma tidy_strip_lines: "tidy (join_with NL (map trimEnd (split_on NL s)))"
proof -
  let ?ls = "map trimEnd (split_on NL s)"
  have ne: "?ls \<noteq> []" by (simp add: split_on_nonempty)
  have nosep: "\<forall>l\<in>set ?ls. NL \<notin> set l"
    using split_pieces_no_sep [of _ NL s] set_strip_trailing [of isWhiteSpace]
    by (auto simp: trimEnd_def)
  have "\<forall>l\<in>set ?ls. trimEnd l = l"
    by (auto simp: trimEnd_def strip_trailing_idem)
  then show ?thesis
    by (simp only: tidy_iff_lines split_join [OF ne nosep])
qed

lemma strip_lines_id: "tidy s \<Longrightarrow> join_with NL (map trimEnd (split_on NL s)) = s"
proof -
  assume "tidy s"
  then have "map trimEnd (split_on NL s) = split_on NL s"
    by (simp add: tidy_iff_lines map_idI)
  then show ?thesis by (simp add: join_split)
qed

lemma formatPython_fixed:
  assumes "CR \<notin> set y" and "TAB \<notin> set y" and "tidy y" and "runs_ok 0 y"
    and "ensure_final_newline y = y"
  shows "formatPython y = y"
  using assms
  by (simp add: formatPython_def replace_crlf_id replace_char_id strip_lines_id
      runs_ok_id [of 0 y])

lemma formatPython_normal:
  "CR \<notin> set (formatPython x) \<and> TAB \<notin> set (formatPython x) \<and> tidy (formatPython x)
   \<and> runs_ok 0 (formatPython x) \<and> ensure_final_newline (formatPython x) = formatPython x"
proof -
  let ?a = "replace_char TAB [SP, SP, SP, SP] (replace_char CR [NL] (replace_crlf x))"
  let ?b = "join_with NL (map trimEnd (split_on NL ?a))"
  let ?c = "collapse_newlines ?b"
  have y: "formatPython x = ensure_final_newline ?c" by (simp add: formatPython_def)
  have a: "CR \<notin> set ?a \<and> TAB \<notin> set ?a"
    by (simp add: notin_replace_char)
  have b: "CR \<notin> set ?b \<and> TAB \<notin> set ?b"
    using a set_strip_lines [of ?a] by auto
  have c: "CR \<notin> set ?c \<and> TAB \<notin> set ?c"
    using b set_collapse [of ?b] by auto
  have d: "CR \<notin> set (ensure_final_newline ?c) \<and> TAB \<notin> set (ensure_final_newline ?c)"
    using c set_ensure_final_newline [of ?c] by auto
  have t: "tidy (ensure_final_newline ?c)"
    by (intro tidy_ensure_final_newline tidy_collapse tidy_strip_lines)
  have "runs_ok 0 ?c" by (rule runs_ok_collapse) simp
  then have r: "runs_ok 0 (ensure_final_newline ?c)"
    by (rule runs_ok_ensure_final_newline) simp
  show ?thesis
    unfolding y using d t r by (simp add: ensure_final_newline_idem)
qed

text \<open>
  Claim C6. The Python clean-up (line endings unified to a newline, each tab to four
  spaces, trailing white space stripped from every line, runs of four or more newlines
  cut to three, that is to two blank lines, and the trailing newlines replaced by one) is
  idempotent: cleaning a cleaned text changes nothing, for every input.
\<close>

theorem formatPython_idempotent: "formatPython (formatPython x) = formatPython x"
  using formatPython_normal [of x] by (intro formatPython_fixed) simp_all

section \<open>Lemmas on documents\<close>

lemma splitLines_no_CR: "CR \<notin> set s \<Longrightarrow> splitLines s = split_on NL s"
  by (induction s rule: splitLines.induct) auto

lemma get_set: "getEditorContent (setEditorContent s) = join_with NL (splitLines s)"
  by (simp add: getEditorContent.rep_eq setEditorContent.rep_eq)

lemma get_set_no_CR: "CR \<notin> set s \<Longrightarrow> getEditorContent (setEditorContent s) = s"
  by (simp add: get_set splitLines_no_CR join_split)

lemma no_CR_content: "CR \<notin> set (getEditorContent d)"
proof -
  have "Rep_document d \<in> {ls. ls \<noteq> [] \<and> (\<forall>l\<in>set ls. CR \<notin> set l \<and> NL \<notin> set l)}"
    by (rule Rep_document)
  then show ?thesis
    using set_join [of NL "Rep_document d"] by (auto simp: getEditorContent.rep_eq)
qed

lemma set_get: "setEditorContent (getEditorContent d) = d"
proof -
  have r: "Rep_document d \<noteq> [] \<and> (\<forall>l\<in>set (Rep_document d). CR \<notin> set l \<and> NL \<notin> set l)"
    using Rep_document [of d] by simp
  have "Rep_document (setEditorContent (getEditorContent d)) = Rep_document d"
    using r no_CR_content [of d]
    by (simp add: setEditorContent.rep_eq splitLines_no_CR)
      (simp add: getEditorContent.rep_eq split_join)
  then show ?thesis
    by (simp add: Rep_document_inject)
qed

lemma join_with_Cons_Cons: "join_with sep ((c # l) # ls) = c # join_with sep (l # ls)"
  by (cases ls) simp_all

lemma join_splitLines: "join_with NL (splitLines s) = replace_char CR [NL] (replace_crlf s)"
proof (induction s rule: splitLines.induct)
  case 1
  show ?case by (simp add: replace_char_def)
next
  case (2 c)
  show ?case by (simp add: replace_char_def)
next
  case (3 c d s)
  have ne: "splitLines t \<noteq> []" for t
    by (induction t rule: splitLines.induct) (auto split: list.splits)
  obtain l ls where sp: "splitLines (d # s) = l # ls"
    using ne [of "d # s"] by (cases "splitLines (d # s)") auto
  obtain l' ls' where sp': "splitLines s = l' # ls'"
    using ne [of s] by (cases "splitLines s") auto
  have r: "replace_char CR [NL] (x # t) = (if x = CR then NL else x) # replace_char CR [NL] t"
    for x t
    by (simp add: replace_char_def)
  show ?case
  proof (cases "c = CR \<and> d = NL")
    case True
    with 3 sp' show ?thesis by (simp add: r)
  next
    case False
    note nocrlf = this
    show ?thesis
    proof (cases "c = CR \<or> c = NL")
      case True
      with nocrlf 3 sp show ?thesis by (auto simp: r)
    next
      case False
      with nocrlf 3 sp show ?thesis by (simp add: r join_with_Cons_Cons del: splitLines.simps(3))
        (simp add: sp join_with_Cons_Cons)
    qed
  qed
qed

lemma get_set_unified:
  "getEditorContent (setEditorContent s) = replace_char CR [NL] (replace_crlf s)"
  by (simp add: get_set join_splitLines)

lemma content_Nil: "getEditorContent (setEditorContent []) = []"
  by (simp add: get_set)

lemma content_str:
  "getEditorContent (setEditorContent (str ''x'')) = str ''x''"
  "getEditorContent (setEditorContent (str ''1'')) = str ''1''"
  "getEditorContent (setEditorContent (str ''b'')) = str ''b''"
  "getEditorContent (setEditorContent (str ''select 1'')) = str ''select 1''"
  "getEditorContent (setEditorContent (str ''a'')) = str ''a''"
  by (simp_all add: get_set_no_CR str_def)


section \<open>differ.js: classification\<close>

lemma trim_eq_Nil: "trim s = [] \<longleftrightarrow> (\<forall>c\<in>set s. isWhiteSpace c)"
proof
  assume "trim s = []"
  then have "\<forall>c\<in>set (strip_trailing isWhiteSpace s). isWhiteSpace c"
    by (simp add: trim_def trimEnd_def)
  then have "strip_trailing isWhiteSpace (strip_trailing isWhiteSpace s) = []"
    by (simp only: strip_trailing_eq_Nil)
  then show "\<forall>c\<in>set s. isWhiteSpace c"
    by (simp only: strip_trailing_idem strip_trailing_eq_Nil)
next
  assume "\<forall>c\<in>set s. isWhiteSpace c"
  then have "strip_trailing isWhiteSpace s = []"
    by (simp only: strip_trailing_eq_Nil)
  then show "trim s = []"
    by (simp add: trim_def trimEnd_def)
qed

lemma diff_outcome:
  "targetEl options \<noteq> None \<Longrightarrow>
   snd (computeAndRenderDiff rt base other options) =
     (if base = other \<or> (trim base = [] \<and> trim other = []) then Inr \<lparr>identical = True\<rparr>
      else if Diff rt = None then Inl JsdiffNotLoaded
      else if Diff2HtmlUI rt = None then Inl Diff2htmlNotLoaded
      else Inr \<lparr>identical = False\<rparr>)"
  by (auto simp: computeAndRenderDiff_def Let_def split: option.splits)

lemma diff_outcome_no_target:
  "targetEl options = None \<Longrightarrow>
   snd (computeAndRenderDiff rt base other options) = Inl TargetRequired"
  by (simp add: computeAndRenderDiff_def)

text \<open>
  Claim C4. Given a target element, the diff of two texts is tagged identical exactly
  when the texts are equal as strings or both are blank after trimming. With jsdiff and
  diff2html loaded every other pair is tagged changed, a text against itself followed by
  a newline included. A text against itself is identical, and so are two texts of white
  space only.
\<close>

theorem computeAndRenderDiff_classifies:
  assumes "targetEl options \<noteq> None"
  shows "(snd (computeAndRenderDiff rt base other options) = Inr \<lparr>identical = True\<rparr>
            \<longleftrightarrow> base = other \<or> (trim base = [] \<and> trim other = []))
       \<and> (Diff rt \<noteq> None \<and> Diff2HtmlUI rt \<noteq> None \<longrightarrow>
            snd (computeAndRenderDiff rt base other options) =
              Inr \<lparr>identical = (base = other \<or> (trim base = [] \<and> trim other = []))\<rparr>)
       \<and> snd (computeAndRenderDiff rt base base options) = Inr \<lparr>identical = True\<rparr>
       \<and> ((\<forall>c\<in>set base. isWhiteSpace c) \<and> (\<forall>c\<in>set other. isWhiteSpace c) \<longrightarrow>
            snd (computeAndRenderDiff rt base other options) = Inr \<lparr>identical = True\<rparr>)
       \<and> (Diff rt \<noteq> None \<and> Diff2HtmlUI rt \<noteq> None \<and> trim base \<noteq> [] \<longrightarrow>
            snd (computeAndRenderDiff rt base (base @ [NL]) options) = Inr \<lparr>identical = False\<rparr>)"
  using assms by (auto simp: diff_outcome trim_eq_Nil)

text \<open>
  The theorem at \<^verbatim>\<open>x\<close> against itself, at two blank texts, and at two pairs
  that differ.
\<close>

theorem computeAndRenderDiff_classifies_witness:
  "snd (computeAndRenderDiff demo_runtime (str ''x'') (str ''x'') demo_options) = Inr \<lparr>identical = True\<rparr>
   \<and> snd (computeAndRenderDiff demo_runtime (str '' '') [TAB, NL] demo_options) = Inr \<lparr>identical = True\<rparr>
   \<and> snd (computeAndRenderDiff demo_runtime (str ''x'') (str ''x'' @ [NL]) demo_options) = Inr \<lparr>identical = False\<rparr>
   \<and> snd (computeAndRenderDiff demo_runtime (str ''x'') (str ''y'') demo_options) = Inr \<lparr>identical = False\<rparr>"
proof -
  have t: "targetEl demo_options \<noteq> None" by (simp add: demo_options_def)
  have l: "Diff demo_runtime \<noteq> None \<and> Diff2HtmlUI demo_runtime \<noteq> None"
    by (simp add: demo_runtime_def)
  have w: "trim (str '' '') = [] \<and> trim [TAB, NL] = [] \<and> trim (str ''x'') \<noteq> []
           \<and> trim (str ''y'') \<noteq> [] \<and> str ''x'' \<noteq> str ''y''"
    by (simp add: trim_def trimEnd_def strip_trailing_def isWhiteSpace_def str_def)
  show ?thesis
    using computeAndRenderDiff_classifies [OF t, of demo_runtime "str ''x''" "str ''x''"]
      computeAndRenderDiff_classifies [OF t, of demo_runtime "str '' ''" "[TAB, NL]"]
      computeAndRenderDiff_classifies [OF t, of demo_runtime "str ''x''" "str ''y''"]
      l w
    by simp
qed

text \<open>
  Claim C8. Swapping the two texts does not change the outcome of the diff: the tag
  or, where a library is missing, the exception is the same, whatever labels the two
  calls are given (both with a target element, or both without).
\<close>

theorem computeAndRenderDiff_symmetric:
  assumes "(targetEl options = None) = (targetEl options' = None)"
  shows "snd (computeAndRenderDiff rt a b options) = snd (computeAndRenderDiff rt b a options')"
proof (cases "targetEl options")
  case None
  with assms show ?thesis by (simp add: diff_outcome_no_target)
next
  case (Some el)
  with assms have "targetEl options \<noteq> None" "targetEl options' \<noteq> None" by auto
  then show ?thesis by (auto simp: diff_outcome)
qed

text \<open>
  The theorem at a pair that differs, with the labels swapped too: both calls say
  changed, and the rendered markup is not the same.
\<close>

theorem computeAndRenderDiff_symmetric_witness:
  "snd (computeAndRenderDiff demo_runtime (str ''x'') (str ''y'')
          (demo_options\<lparr>baseLabel := Some (str ''left''), otherLabel := Some (str ''right'')\<rparr>))
     = Inr \<lparr>identical = False\<rparr>
   \<and> snd (computeAndRenderDiff demo_runtime (str ''y'') (str ''x'')
          (demo_options\<lparr>baseLabel := Some (str ''right''), otherLabel := Some (str ''left'')\<rparr>))
     = Inr \<lparr>identical = False\<rparr>
   \<and> fst (computeAndRenderDiff demo_runtime (str ''x'') (str ''y'')
          (demo_options\<lparr>baseLabel := Some (str ''left''), otherLabel := Some (str ''right'')\<rparr>))
     \<noteq> fst (computeAndRenderDiff demo_runtime (str ''y'') (str ''x'')
          (demo_options\<lparr>baseLabel := Some (str ''right''), otherLabel := Some (str ''left'')\<rparr>))"
proof -
  let ?o1 = "demo_options\<lparr>baseLabel := Some (str ''left''), otherLabel := Some (str ''right'')\<rparr>"
  let ?o2 = "demo_options\<lparr>baseLabel := Some (str ''right''), otherLabel := Some (str ''left'')\<rparr>"
  have t: "(targetEl ?o1 = None) = (targetEl ?o2 = None)" by (simp add: demo_options_def)
  have 1: "snd (computeAndRenderDiff demo_runtime (str ''x'') (str ''y'') ?o1) = Inr \<lparr>identical = False\<rparr>"
    by (simp add: diff_outcome demo_options_def demo_runtime_def str_def trim_def
        trimEnd_def strip_trailing_def isWhiteSpace_def)
  have 3: "fst (computeAndRenderDiff demo_runtime (str ''x'') (str ''y'') ?o1)
     \<noteq> fst (computeAndRenderDiff demo_runtime (str ''y'') (str ''x'') ?o2)"
    by (simp add: computeAndRenderDiff_def demo_options_def demo_runtime_def str_def trim_def
        trimEnd_def strip_trailing_def isWhiteSpace_def or_else_def default_to_def
        endsWith_newline_def Let_def)
  show ?thesis
    using computeAndRenderDiff_symmetric [OF t, of demo_runtime "str ''x''" "str ''y''"] 1 3
    by simp
qed

section \<open>app.js: rotation\<close>

lemma rotation3: "rotation (rotation (rotation k)) = k"
  by (cases k) (simp_all add: rotation_def)

lemma handleCycle_editors: "editors (handleCycle pg) = editors pg \<circ> rotation"
  by (rule ext) (simp add: handleCycle_def Let_def showStatus_def allKeys_def rotation_def
      set_get split: key.splits)

lemma handleCycle_titles:
  "\<forall>k. title_inputs pg k \<noteq> None \<Longrightarrow> title_inputs (handleCycle pg) = title_inputs pg \<circ> rotation"
proof (rule ext)
  fix k
  assume a: "\<forall>k. title_inputs pg k \<noteq> None"
  obtain ta tb tc where t: "title_inputs pg KeyA = Some ta" "title_inputs pg KeyB = Some tb"
      "title_inputs pg KeyC = Some tc"
    using a by (meson option.exhaust)
  show "title_inputs (handleCycle pg) k = (title_inputs pg \<circ> rotation) k"
    using t by (cases k) (simp_all add: handleCycle_def Let_def showStatus_def allKeys_def rotation_def)
qed

lemma handleCycle_rest:
  "handleCycle pg = pg\<lparr>editors := editors (handleCycle pg),
      title_inputs := title_inputs (handleCycle pg), status_bar := Some (Success ContentsCycled)\<rparr>"
  by (simp add: handleCycle_def Let_def showStatus_def)

text \<open>
  Claim C7. On a page that has its three title inputs, \<open>handleCycle\<close> is the
  rotation A' = C, B' = A, C' = B of the contents and of the titles alike; it changes
  nothing else but the status bar and has no failure branch. Three rotations give back
  the contents and the titles.
\<close>

theorem handleCycle_rotates:
  assumes "\<forall>k. title_inputs pg k \<noteq> None"
  shows "handleCycle pg =
           pg\<lparr>editors := editors pg \<circ> rotation, title_inputs := title_inputs pg \<circ> rotation,
              status_bar := Some (Success ContentsCycled)\<rparr>
       \<and> rotation KeyA = KeyC \<and> rotation KeyB = KeyA \<and> rotation KeyC = KeyB
       \<and> editors (handleCycle (handleCycle (handleCycle pg))) = editors pg
       \<and> title_inputs (handleCycle (handleCycle (handleCycle pg))) = title_inputs pg"
proof -
  have 1: "handleCycle pg =
           pg\<lparr>editors := editors pg \<circ> rotation, title_inputs := title_inputs pg \<circ> rotation,
              status_bar := Some (Success ContentsCycled)\<rparr>"
    using handleCycle_rest [of pg] handleCycle_editors [of pg] handleCycle_titles [OF assms]
    by simp
  have a1: "\<forall>k. title_inputs (handleCycle pg) k \<noteq> None"
    using assms by (simp add: handleCycle_titles)
  have a2: "\<forall>k. title_inputs (handleCycle (handleCycle pg)) k \<noteq> None"
    using a1 by (simp add: handleCycle_titles)
  have r3: "rotation \<circ> rotation \<circ> rotation = id"
    by (rule ext) (simp add: rotation3)
  have 2: "editors (handleCycle (handleCycle (handleCycle pg))) = editors pg"
    using r3 by (simp add: handleCycle_editors comp_assoc)
  have 3: "title_inputs (handleCycle (handleCycle (handleCycle pg))) = title_inputs pg"
    using r3 by (simp add: handleCycle_titles [OF a2] handleCycle_titles [OF a1]
        handleCycle_titles [OF assms] comp_assoc)
  show ?thesis using 1 2 3 by (simp add: rotation_def)
qed

text \<open>
  The theorem on a page with three different contents and titles.
\<close>

theorem handleCycle_rotates_witness:
  "editors (handleCycle titled_page) KeyA = setEditorContent (str ''c'')
   \<and> editors (handleCycle titled_page) KeyB = setEditorContent (str ''a'')
   \<and> editors (handleCycle titled_page) KeyC = setEditorContent (str ''b'')
   \<and> title_inputs (handleCycle titled_page) KeyA = Some []
   \<and> title_inputs (handleCycle titled_page) KeyB = Some (str ''first'')
   \<and> title_inputs (handleCycle titled_page) KeyC = Some (str ''second'')
   \<and> editors (handleCycle (handleCycle (handleCycle titled_page))) = editors titled_page
   \<and> title_inputs (handleCycle (handleCycle (handleCycle titled_page))) = title_inputs titled_page"
proof -
  have t: "\<forall>k. title_inputs titled_page k \<noteq> None"
    by (simp add: titled_page_def split: key.splits)
  note r = handleCycle_rotates [OF t]
  have a: "handleCycle titled_page =
          titled_page\<lparr>editors := editors titled_page \<circ> rotation,
             title_inputs := title_inputs titled_page \<circ> rotation,
             status_bar := Some (Success ContentsCycled)\<rparr>"
    using r by (rule conjunct1)
  have e: "editors (handleCycle titled_page) = editors titled_page \<circ> rotation"
    by (subst a) simp
  have i: "title_inputs (handleCycle titled_page) = title_inputs titled_page \<circ> rotation"
    by (subst a) simp
  have 1: "editors (handleCycle titled_page) KeyA = setEditorContent (str ''c'')
   \<and> editors (handleCycle titled_page) KeyB = setEditorContent (str ''a'')
   \<and> editors (handleCycle titled_page) KeyC = setEditorContent (str ''b'')"
    by (simp add: e rotation_def) (simp add: titled_page_def)
  have 2: "title_inputs (handleCycle titled_page) KeyA = Some []
   \<and> title_inputs (handleCycle titled_page) KeyB = Some (str ''first'')
   \<and> title_inputs (handleCycle titled_page) KeyC = Some (str ''second'')"
    by (simp add: i rotation_def) (simp add: titled_page_def)
  have 3: "editors (handleCycle (handleCycle (handleCycle titled_page))) = editors titled_page
   \<and> title_inputs (handleCycle (handleCycle (handleCycle titled_page))) = title_inputs titled_page"
    using r by blast
  show ?thesis
    using 1 2 3 by blast
qed

section \<open>formatter.js: dispatch\<close>

lemma formatCode_sql:
  "trim code \<noteq> [] \<Longrightarrow>
   formatCode rt code (str ''sql'') \<lparr>sqlDialect = None\<rparr> = formatSQL rt code (str ''sql'')"
  by (simp add: formatCode_def or_else_def) (simp add: str_def)

lemma formatCode_json: "trim code \<noteq> [] \<Longrightarrow> formatCode rt code (str ''json'') options = formatJSON rt code"
  by (simp add: formatCode_def) (simp add: str_def)

lemma formatCode_xml: "trim code \<noteq> [] \<Longrightarrow> formatCode rt code (str ''xml'') options = formatXML rt code"
  by (simp add: formatCode_def) (simp add: str_def)

lemma formatCode_html: "trim code \<noteq> [] \<Longrightarrow> formatCode rt code (str ''html'') options = formatHTML rt code"
  by (simp add: formatCode_def) (simp add: str_def)

lemma languageMap_sql: "languageMap (str ''sql'') = Dialect (str ''sql'')"
  by (simp add: languageMap_def languageMap_keys_def)

lemma x_not_blank: "trim (str ''x'') \<noteq> []"
  by (simp add: trim_def trimEnd_def strip_trailing_def isWhiteSpace_def str_def)

lemma blank_Nil: "trim [] = []"
  by (simp add: trim_def trimEnd_def strip_trailing_def)

lemma demo_blank: "trim (str ''1'') \<noteq> []" "trim (str ''b'') \<noteq> []"
  by (simp_all add: trim_def trimEnd_def strip_trailing_def isWhiteSpace_def str_def)

lemma demo_runtime_fields:
  "prettier demo_runtime = None" "JSON_stringify demo_runtime (JNumber t) n = t"
  "Diff demo_runtime \<noteq> None" "Diff2HtmlUI demo_runtime \<noteq> None"
  by (simp_all add: demo_runtime_def)

lemma demo_parse_one: "JSON_parse demo_runtime (str ''1'') = Inr (JNumber (str ''1''))"
  by (simp add: demo_runtime_def json_trim_def strip_trailing_def json_ws_def str_def)

lemma demo_parse_b: "JSON_parse demo_runtime (str ''b'') = Inl (str ''Unexpected token'')"
  by (simp add: demo_runtime_def json_trim_def strip_trailing_def json_ws_def str_def)





text \<open>
  Claim C9, amended. For the tag xml the dispatcher calls \<^verbatim>\<open>html_beautify\<close>
  with an indent of 2, newlines preserved up to 2, a final newline, lines wrapped at
  120 and empty lists of unformatted and content-unformatted elements; it does not set
  \<^verbatim>\<open>indent_inner_html\<close>, which the call for html sets. Without the beautifier the
  call fails with \<open>FormatterNotLoaded XML\<close>.
\<close>

theorem formatXML_options:
  assumes "trim code \<noteq> []"
  shows "(getBeautify rt (str ''html_beautify'') = None \<longrightarrow>
            formatCode rt code (str ''xml'') options = Inl (FormatterNotLoaded XML))
       \<and> (getBeautify rt (str ''html_beautify'') = Some beautify \<longrightarrow>
            formatCode rt code (str ''xml'') options =
              call (beautify code
                \<lparr>indent_size = Some 2, space_in_empty_paren = None, preserve_newlines = Some True,
                 max_preserve_newlines = Some 2, end_with_newline = Some True,
                 wrap_line_length = Some 120, indent_inner_html = None,
                 newline_between_rules = None, content_unformatted = Some [],
                 unformatted = Some []\<rparr>)
            \<and> formatCode rt code (str ''html'') options =
              call (beautify code
                \<lparr>indent_size = Some 2, space_in_empty_paren = None, preserve_newlines = Some True,
                 max_preserve_newlines = Some 2, end_with_newline = Some True,
                 wrap_line_length = Some 120, indent_inner_html = Some True,
                 newline_between_rules = None, content_unformatted = None,
                 unformatted = None\<rparr>))"
  using assms
  by (simp add: formatCode_xml formatCode_html formatXML_def formatHTML_def no_options_def)

text \<open>
  The claim as written fails: a beautifier that reports whether it was asked to
  indent the inner html says yes for html and no for xml.
\<close>

theorem formatXML_options_counterexample:
  "formatCode probe_runtime (str ''<a><b/></a>'') (str ''html'') \<lparr>sqlDialect = None\<rparr>
     = Inr (str ''inner html indented'')
   \<and> formatCode probe_runtime (str ''<a><b/></a>'') (str ''xml'') \<lparr>sqlDialect = None\<rparr>
     = Inr (str ''inner html not indented'')"
proof -
  have nb: "trim (str ''<a><b/></a>'') \<noteq> []"
    by (simp add: trim_def trimEnd_def strip_trailing_def isWhiteSpace_def str_def)
  show ?thesis
    by (simp add: formatCode_xml [OF nb] formatCode_html [OF nb] formatXML_def formatHTML_def
        getBeautify_def probe_runtime_def no_options_def call_def)
qed

text \<open>
  The amended theorem with and without the beautifier.
\<close>

theorem formatXML_options_witness:
  "formatCode probe_runtime (str ''<a><b/></a>'') (str ''xml'') \<lparr>sqlDialect = None\<rparr>
     = Inr (str ''inner html not indented'')
   \<and> formatCode demo_runtime (str ''<a><b/></a>'') (str ''xml'') \<lparr>sqlDialect = None\<rparr>
     = Inl (FormatterNotLoaded XML)"
proof -
  have nb: "trim (str ''<a><b/></a>'') \<noteq> []"
    by (simp add: trim_def trimEnd_def strip_trailing_def isWhiteSpace_def str_def)
  have g: "getBeautify probe_runtime (str ''html_beautify'') =
      Some (\<lambda>code options.
            if indent_inner_html options = Some True then Inr (str ''inner html indented'')
            else Inr (str ''inner html not indented''))"
    by (simp add: getBeautify_def probe_runtime_def)
  have d: "getBeautify demo_runtime (str ''html_beautify'') = None"
    by (simp add: getBeautify_def demo_runtime_def)
  show ?thesis
    using formatXML_options [OF nb, where rt = probe_runtime and options = "\<lparr>sqlDialect = None\<rparr>"]
      formatXML_options [OF nb, where rt = demo_runtime and options = "\<lparr>sqlDialect = None\<rparr>"] g d
    by (simp add: call_def)
qed

section \<open>app.js: the diff handler\<close>

lemma set_allKeys: "set allKeys = UNIV"
proof -
  have "k \<in> set allKeys" for k by (cases k) (simp_all add: allKeys_def)
  then show ?thesis by auto
qed

lemma distinct_allKeys: "distinct allKeys"
  by (simp add: allKeys_def)

lemma set_keysWithContent: "set (keysWithContent pg) = {k. hasContent pg k}"
  by (simp add: keysWithContent_def set_allKeys)

lemma set_othersWithContent: "set (othersWithContent pg) = {k. k \<noteq> primary pg \<and> hasContent pg k}"
  by (auto simp: othersWithContent_def otherKeys_def set_allKeys)

lemma distinct_othersWithContent: "distinct (othersWithContent pg)"
  by (simp add: othersWithContent_def otherKeys_def distinct_allKeys)

lemma length_othersWithContent:
  "length (othersWithContent pg) = card {k. k \<noteq> primary pg \<and> hasContent pg k}"
  using distinct_card [OF distinct_othersWithContent, of pg] by (simp add: set_othersWithContent)

lemma othersWithContent_Nil:
  "othersWithContent pg = [] \<longleftrightarrow> (\<forall>k. k \<noteq> primary pg \<longrightarrow> \<not> hasContent pg k)"
  using set_othersWithContent [of pg] by (metis (mono_tags, lifting) Collect_empty_eq set_empty)

lemma formatEditor_eq:
  "formatEditor rt lang pg k = pg\<lparr>editors := (editors pg)(k := formatted_or_raw rt lang (editors pg k))\<rparr>"
  by (simp add: formatEditor_def formatted_or_raw_def Let_def split: sum.splits)

lemma formatEditors_eq:
  "distinct ks \<Longrightarrow>
   formatEditors rt lang ks pg =
     pg\<lparr>editors := (\<lambda>k. if k \<in> set ks then formatted_or_raw rt lang (editors pg k) else editors pg k)\<rparr>"
proof (induction ks arbitrary: pg)
  case Nil
  show ?case by (simp add: formatEditors_def)
next
  case (Cons k ks)
  let ?pg = "formatEditor rt lang pg k"
  have "formatEditors rt lang (k # ks) pg = formatEditors rt lang ks ?pg"
    by (simp add: formatEditors_def)
  also have "\<dots> = ?pg\<lparr>editors := (\<lambda>j. if j \<in> set ks then formatted_or_raw rt lang (editors ?pg j)
                                      else editors ?pg j)\<rparr>"
    using Cons by simp
  also have "\<dots> = pg\<lparr>editors := (\<lambda>j. if j \<in> set (k # ks) then formatted_or_raw rt lang (editors pg j)
                                      else editors pg j)\<rparr>"
  proof -
    have "(\<lambda>j. if j \<in> set ks then formatted_or_raw rt lang (editors ?pg j) else editors ?pg j)
        = (\<lambda>j. if j \<in> set (k # ks) then formatted_or_raw rt lang (editors pg j) else editors pg j)"
      using Cons.prems by (auto simp: formatEditor_eq fun_eq_iff)
    then show ?thesis by (simp add: formatEditor_eq)
  qed
  finally show ?case .
qed

lemma preformatted_eq:
  "preformatted rt pg =
     pg\<lparr>editors := (\<lambda>k. if hasContent pg k then formatted_or_raw rt (diff_language pg) (editors pg k)
                          else editors pg k)\<rparr>"
proof -
  have "distinct (keysWithContent pg)"
    by (simp add: keysWithContent_def distinct_allKeys)
  then show ?thesis
    by (simp add: preformatted_def formatEditors_eq set_keysWithContent)
qed

lemma hasContent_container [simp]: "hasContent (pg\<lparr>container := c\<rparr>) = hasContent pg"
  by (simp add: hasContent_def fun_eq_iff)

lemma othersWithContent_container [simp]:
  "othersWithContent (pg\<lparr>container := c\<rparr>) = othersWithContent pg"
  by (simp add: othersWithContent_def otherKeys_def)

lemma keysWithContent_container [simp]:
  "keysWithContent (pg\<lparr>container := c\<rparr>) = keysWithContent pg"
  by (simp add: keysWithContent_def)

lemma getDiffEditorTitle_container [simp]:
  "getDiffEditorTitle (pg\<lparr>container := c\<rparr>) = getDiffEditorTitle pg"
  by (simp add: getDiffEditorTitle_def fun_eq_iff)

lemma comparison_container [simp]: "comparison rt (pg\<lparr>container := c\<rparr>) = comparison rt pg"
  by (simp add: comparison_def fun_eq_iff)

lemma preformatted_container:
  "preformatted rt (pg\<lparr>container := c\<rparr>) = (preformatted rt pg)\<lparr>container := c\<rparr>"
  by (cases pg) (simp add: preformatted_eq hasContent_def cong: if_cong)

lemma compareEditors_Cons:
  "compareEditors rt bc bt mode lang (k # ks) b pg =
     (case snd (cmp rt bc bt mode lang pg k) of
        Inl err \<Rightarrow>
          (pg\<lparr>container := container pg @ [panel_of bt pg k (fst (cmp rt bc bt mode lang pg k))]\<rparr>,
           Inl err)
      | Inr r \<Rightarrow>
          compareEditors rt bc bt mode lang ks (b \<and> identical r)
            (pg\<lparr>container := container pg @ [panel_of bt pg k (fst (cmp rt bc bt mode lang pg k))]\<rparr>))"
  by (cases "cmp rt bc bt mode lang pg k")
    (auto simp: cmp_def panel_of_def Let_def split: sum.splits)

lemma cmp_container [simp]: "cmp rt bc bt mode lang (pg\<lparr>container := c\<rparr>) k = cmp rt bc bt mode lang pg k"
  by (simp add: cmp_def)

lemma compareEditors_result:
  "snd (compareEditors rt bc bt mode lang ks b pg)
     = aggregate (map (\<lambda>k. snd (cmp rt bc bt mode lang pg k)) ks) b"
proof (induction ks arbitrary: b pg)
  case Nil
  show ?case by simp
next
  case (Cons k ks)
  show ?case
    by (cases "snd (cmp rt bc bt mode lang pg k)")
      (simp_all only: compareEditors_Cons sum.case snd_conv list.map aggregate.simps Cons cmp_container)
qed

lemma compareEditors_editors:
  "editors (fst (compareEditors rt bc bt mode lang ks b pg)) = editors pg"
proof (induction ks arbitrary: b pg)
  case Nil
  show ?case by simp
next
  case (Cons k ks)
  show ?case
    by (cases "snd (cmp rt bc bt mode lang pg k)")
      (simp_all only: compareEditors_Cons sum.case fst_conv Cons, simp_all)
qed

lemma compareEditors_count:
  "snd (compareEditors rt bc bt mode lang ks b pg) = Inr b' \<Longrightarrow>
   length (container (fst (compareEditors rt bc bt mode lang ks b pg)))
     = length (container pg) + length ks"
proof (induction ks arbitrary: b pg)
  case Nil
  show ?case by simp
next
  case (Cons k ks)
  show ?case
  proof (cases "snd (cmp rt bc bt mode lang pg k)")
    case (Inl e)
    with Cons.prems show ?thesis by (simp only: compareEditors_Cons sum.case snd_conv) simp
  next
    case (Inr r)
    with Cons.prems Cons.IH [of "b \<and> identical r"
        "pg\<lparr>container := container pg @ [panel_of bt pg k (fst (cmp rt bc bt mode lang pg k))]\<rparr>"]
    show ?thesis by (simp only: compareEditors_Cons sum.case) simp
  qed
qed

lemma compareEditors_grows:
  "length (container pg) + min 1 (length ks)
     \<le> length (container (fst (compareEditors rt bc bt mode lang ks b pg)))"
proof (induction ks arbitrary: b pg)
  case Nil
  show ?case by simp
next
  case (Cons k ks)
  show ?case
  proof (cases "snd (cmp rt bc bt mode lang pg k)")
    case (Inl e)
    then show ?thesis by (simp only: compareEditors_Cons sum.case fst_conv) simp
  next
    case (Inr r)
    with Cons.IH [of "pg\<lparr>container := container pg @ [panel_of bt pg k (fst (cmp rt bc bt mode lang pg k))]\<rparr>"
        "b \<and> identical r"]
    show ?thesis by (simp only: compareEditors_Cons sum.case) simp
  qed
qed

lemma aggregate_all:
  "aggregate rs b = Inr True \<longleftrightarrow> b \<and> (\<forall>r\<in>set rs. r = Inr \<lparr>identical = True\<rparr>)"
proof (induction rs b rule: aggregate.induct)
  case (3 r rs b)
  then show ?case by (cases r) auto
qed auto

lemma aggregate_total:
  "\<forall>r\<in>set rs. \<exists>x. r = Inr x \<Longrightarrow>
   aggregate rs b = Inr (b \<and> (\<forall>r\<in>set rs. r = Inr \<lparr>identical = True\<rparr>))"
proof (induction rs b rule: aggregate.induct)
  case (3 r rs b)
  then show ?case by (cases r) auto
qed auto

lemma aggregate_error:
  "aggregate rs b = Inl e \<Longrightarrow> Inl e \<in> set rs"
  by (induction rs b rule: aggregate.induct) auto

lemma cmp_comparison:
  "cmp rt (getEditorContent (editors pg (primary pg))) (getDiffEditorTitle pg (primary pg))
     (diff_view_mode pg)
     (diff_language pg) pg k = comparison rt pg k"
  by (simp add: cmp_def comparison_def)

lemma preformatted_fields:
  "primary (preformatted rt pg) = primary pg"
  "diff_view_mode (preformatted rt pg) = diff_view_mode pg"
  "diff_language (preformatted rt pg) = diff_language pg"
  "title_inputs (preformatted rt pg) = title_inputs pg"
  "container (preformatted rt pg) = container pg"
  "status_bar (preformatted rt pg) = status_bar pg"
  by (simp_all add: preformatted_eq)

lemma handleDiff_valid:
  assumes "hasContent pg (primary pg)" and "othersWithContent pg \<noteq> []"
  shows "handleDiff rt pg =
     (let pg1 = (preformatted rt pg)\<lparr>container := []\<rparr>;
          res = compareEditors rt (getEditorContent (editors pg1 (primary pg1)))
                  (getDiffEditorTitle pg1 (primary pg1))
                  (diff_view_mode pg1) (diff_language pg1) (othersWithContent pg) True pg1
      in case snd res of
           Inl err \<Rightarrow> showStatus (Error (Thrown err)) (fst res)
         | Inr allIdentical \<Rightarrow>
             if allIdentical then showStatus (Success NoDifferencesFound) (fst res)
             else showStatus (Success (DiffComputed (length (othersWithContent pg)))) (fst res))"
proof -
  have P: "formatEditors rt (diff_language pg) (keysWithContent pg) (pg\<lparr>container := []\<rparr>)
             = (preformatted rt pg)\<lparr>container := []\<rparr>"
    unfolding preformatted_container [symmetric] by (simp add: preformatted_def)
  show ?thesis
    using assms
    by (simp add: handleDiff_def Let_def P preformatted_fields case_prod_beta
        cong: sum.case_cong if_cong)
qed

lemma handleDiff_results:
  assumes "hasContent pg (primary pg)" and "othersWithContent pg \<noteq> []"
  shows "\<exists>res. snd res = aggregate (map (\<lambda>k. snd (comparison rt (preformatted rt pg) k))
                                   (othersWithContent pg)) True
           \<and> editors (fst res) = editors (preformatted rt pg)
           \<and> 1 \<le> length (container (fst res))
           \<and> (\<forall>b. snd res = Inr b \<longrightarrow> length (container (fst res)) = length (othersWithContent pg))
           \<and> handleDiff rt pg =
               (case snd res of
                  Inl err \<Rightarrow> showStatus (Error (Thrown err)) (fst res)
                | Inr allIdentical \<Rightarrow>
                    if allIdentical then showStatus (Success NoDifferencesFound) (fst res)
                    else showStatus (Success (DiffComputed (length (othersWithContent pg))))
                           (fst res))"
proof -
  let ?pg1 = "(preformatted rt pg)\<lparr>container := []\<rparr>"
  let ?res = "compareEditors rt (getEditorContent (editors ?pg1 (primary ?pg1)))
                  (getDiffEditorTitle ?pg1 (primary ?pg1))
                  (diff_view_mode ?pg1) (diff_language ?pg1) (othersWithContent pg) True ?pg1"
  have 1: "snd ?res = aggregate (map (\<lambda>k. snd (comparison rt (preformatted rt pg) k))
                                   (othersWithContent pg)) True"
    by (simp only: compareEditors_result cmp_comparison comparison_container)
  have 2: "editors (fst ?res) = editors (preformatted rt pg)"
    by (simp only: compareEditors_editors) simp
  have 3: "1 \<le> length (container (fst ?res))"
    using compareEditors_grows [of ?pg1 "othersWithContent pg" rt
        "getEditorContent (editors ?pg1 (primary ?pg1))"
        "getDiffEditorTitle ?pg1 (primary ?pg1)" "diff_view_mode ?pg1" "diff_language ?pg1" True]
      assms(2)
    by (cases "othersWithContent pg") simp_all
  have 4: "\<forall>b. snd ?res = Inr b \<longrightarrow> length (container (fst ?res)) = length (othersWithContent pg)"
    using compareEditors_count [of rt "getEditorContent (editors ?pg1 (primary ?pg1))"
        "getDiffEditorTitle ?pg1 (primary ?pg1)" "diff_view_mode ?pg1" "diff_language ?pg1"
        "othersWithContent pg" True ?pg1]
    by simp
  have 5: "handleDiff rt pg =
               (case snd ?res of
                  Inl err \<Rightarrow> showStatus (Error (Thrown err)) (fst ?res)
                | Inr allIdentical \<Rightarrow>
                    if allIdentical then showStatus (Success NoDifferencesFound) (fst ?res)
                    else showStatus (Success (DiffComputed (length (othersWithContent pg))))
                           (fst ?res))"
    using handleDiff_valid [OF assms, of rt] by (simp only: Let_def)
  show ?thesis
    using 1 2 3 4 5 by blast
qed

lemma comparison_outcome:
  "snd (comparison rt pg k) =
     (if getEditorContent (editors pg (primary pg)) = getEditorContent (editors pg k)
         \<or> (trim (getEditorContent (editors pg (primary pg))) = []
            \<and> trim (getEditorContent (editors pg k)) = [])
      then Inr \<lparr>identical = True\<rparr>
      else if Diff rt = None then Inl JsdiffNotLoaded
      else if Diff2HtmlUI rt = None then Inl Diff2htmlNotLoaded
      else Inr \<lparr>identical = False\<rparr>)"
  unfolding comparison_def by (rule diff_outcome) simp

lemma status_showStatus [simp]: "status_bar (showStatus m pg) = Some m"
  and editors_showStatus [simp]: "editors (showStatus m pg) = editors pg"
  and container_showStatus [simp]: "container (showStatus m pg) = container pg"
  by (simp_all add: showStatus_def)

lemma editors_preformatted:
  "editors (preformatted rt pg) k =
     (if hasContent pg k
      then (case formatCode rt (getEditorContent (editors pg k)) (diff_language pg)
                   \<lparr>sqlDialect = None\<rparr> of
              Inr formatted \<Rightarrow> setEditorContent formatted
            | Inl err \<Rightarrow> editors pg k)
      else editors pg k)"
  by (simp add: preformatted_eq formatted_or_raw_def)

lemma handleDiff_editors:
  assumes "hasContent pg (primary pg)" and "othersWithContent pg \<noteq> []"
  shows "editors (handleDiff rt pg) = editors (preformatted rt pg)"
proof -
  obtain res where ed: "editors (fst res) = editors (preformatted rt pg)"
    and hd: "handleDiff rt pg =
               (case snd res of
                  Inl err \<Rightarrow> showStatus (Error (Thrown err)) (fst res)
                | Inr allIdentical \<Rightarrow>
                    if allIdentical then showStatus (Success NoDifferencesFound) (fst res)
                    else showStatus (Success (DiffComputed (length (othersWithContent pg))))
                           (fst res))"
    using handleDiff_results [OF assms, of rt] by blast
  show ?thesis
    by (cases "snd res") (simp_all add: hd ed)
qed

lemma keysWithContent_two:
  assumes "hasContent pg j" and "hasContent pg k" and "j \<noteq> k"
  shows "2 \<le> length (keysWithContent pg)"
proof -
  have d: "distinct (keysWithContent pg)"
    by (simp add: keysWithContent_def distinct_allKeys)
  have "{j, k} \<subseteq> set (keysWithContent pg)"
    using assms by (simp add: set_keysWithContent)
  then have "card {j, k} \<le> card (set (keysWithContent pg))"
    by (intro card_mono) simp_all
  then show ?thesis
    using assms(3) distinct_card [OF d] by simp
qed

lemma handleDiff_identical_iff:
  assumes "hasContent pg (primary pg)" and "othersWithContent pg \<noteq> []"
  shows "status_bar (handleDiff rt pg) = Some (Success NoDifferencesFound) \<longleftrightarrow>
           (\<forall>k\<in>set (othersWithContent pg).
              snd (comparison rt (preformatted rt pg) k) = Inr \<lparr>identical = True\<rparr>)"
proof -
  let ?rs = "map (\<lambda>k. snd (comparison rt (preformatted rt pg) k)) (othersWithContent pg)"
  obtain res where res: "snd res = aggregate ?rs True"
    and hd: "handleDiff rt pg =
               (case snd res of
                  Inl err \<Rightarrow> showStatus (Error (Thrown err)) (fst res)
                | Inr allIdentical \<Rightarrow>
                    if allIdentical then showStatus (Success NoDifferencesFound) (fst res)
                    else showStatus (Success (DiffComputed (length (othersWithContent pg))))
                           (fst res))"
    using handleDiff_results [OF assms, of rt] by blast
  have "status_bar (handleDiff rt pg) = Some (Success NoDifferencesFound) \<longleftrightarrow> snd res = Inr True"
    by (cases "snd res") (auto simp: hd)
  then show ?thesis
    by (simp add: res aggregate_all)
qed

text \<open>
  Claim C2. Validation fails in three cases, told apart by the trimmed contents. With an
  empty base and a candidate that has content the handler reports that the base editor is
  empty; with a base that has content and no candidate that has, it asks for content in
  one other editor; and where neither is so and no two editors have content, which is
  where no editor has any, it asks for content in at least two editors. In each case the
  page is left with an empty output container and only the status bar changed: nothing
  is formatted and nothing is compared.
\<close>

theorem handleDiff_validation:
  "(\<not> hasContent pg (primary pg) \<and> (\<exists>k. k \<noteq> primary pg \<and> hasContent pg k) \<longrightarrow>
      handleDiff rt pg = pg\<lparr>container := [], status_bar := Some (Error BaseEditorEmpty)\<rparr>)
   \<and> (hasContent pg (primary pg) \<and> (\<forall>k. k \<noteq> primary pg \<longrightarrow> \<not> hasContent pg k) \<longrightarrow>
      handleDiff rt pg = pg\<lparr>container := [], status_bar := Some (Error EnterOneOther)\<rparr>)
   \<and> ((\<forall>k. \<not> hasContent pg k) \<longrightarrow>
      handleDiff rt pg = pg\<lparr>container := [], status_bar := Some (Error EnterAtLeastTwo)\<rparr>)
   \<and> (length (keysWithContent pg) < 2
        \<and> \<not> (\<not> hasContent pg (primary pg) \<and> (\<exists>k. k \<noteq> primary pg \<and> hasContent pg k))
        \<and> \<not> (hasContent pg (primary pg) \<and> (\<forall>k. k \<noteq> primary pg \<longrightarrow> \<not> hasContent pg k))
      \<longrightarrow> handleDiff rt pg = pg\<lparr>container := [], status_bar := Some (Error EnterAtLeastTwo)\<rparr>)"
proof -
  have 1: "handleDiff rt pg = pg\<lparr>container := [], status_bar := Some (Error BaseEditorEmpty)\<rparr>"
    if "\<not> hasContent pg (primary pg) \<and> (\<exists>k. k \<noteq> primary pg \<and> hasContent pg k)"
  proof -
    from that have "\<not> hasContent pg (primary pg)" "othersWithContent pg \<noteq> []"
      by (auto simp: othersWithContent_Nil)
    then show ?thesis
      by (simp add: handleDiff_def Let_def showStatus_def)
  qed
  have 2: "handleDiff rt pg = pg\<lparr>container := [], status_bar := Some (Error EnterOneOther)\<rparr>"
    if "hasContent pg (primary pg) \<and> (\<forall>k. k \<noteq> primary pg \<longrightarrow> \<not> hasContent pg k)"
  proof -
    from that have "hasContent pg (primary pg)" "othersWithContent pg = []"
      by (auto simp: othersWithContent_Nil)
    then show ?thesis
      by (simp add: handleDiff_def Let_def showStatus_def)
  qed
  have 3: "handleDiff rt pg = pg\<lparr>container := [], status_bar := Some (Error EnterAtLeastTwo)\<rparr>"
    if "\<forall>k. \<not> hasContent pg k"
  proof -
    from that have "\<not> hasContent pg (primary pg)" "othersWithContent pg = []"
      by (auto simp: othersWithContent_Nil)
    then show ?thesis
      by (simp add: handleDiff_def Let_def showStatus_def)
  qed
  have 4: "\<forall>k. \<not> hasContent pg k"
    if a: "length (keysWithContent pg) < 2
        \<and> \<not> (\<not> hasContent pg (primary pg) \<and> (\<exists>k. k \<noteq> primary pg \<and> hasContent pg k))
        \<and> \<not> (hasContent pg (primary pg) \<and> (\<forall>k. k \<noteq> primary pg \<longrightarrow> \<not> hasContent pg k))"
  proof -
    have "\<not> hasContent pg (primary pg)"
    proof
      assume b: "hasContent pg (primary pg)"
      with a obtain k where "k \<noteq> primary pg" "hasContent pg k" by blast
      with b have "2 \<le> length (keysWithContent pg)"
        using keysWithContent_two [of pg "primary pg" k] by simp
      with a show False by simp
    qed
    with a show ?thesis by metis
  qed
  show ?thesis
    using 1 2 3 4 by blast
qed

text \<open>
  The theorem on a page with only a candidate, with only the base, and with nothing.
\<close>

theorem handleDiff_validation_witness:
  "status_bar (handleDiff demo_runtime only_other_page) = Some (Error BaseEditorEmpty)
   \<and> status_bar (handleDiff demo_runtime only_base_page) = Some (Error EnterOneOther)
   \<and> status_bar (handleDiff demo_runtime empty_page) = Some (Error EnterAtLeastTwo)
   \<and> container (handleDiff demo_runtime only_other_page) = []
   \<and> editors (handleDiff demo_runtime only_other_page) = editors only_other_page"
proof -
  have 1: "\<not> hasContent only_other_page (primary only_other_page)
           \<and> (\<exists>k. k \<noteq> primary only_other_page \<and> hasContent only_other_page k)"
    by (auto simp: only_other_page_def demo_page_def hasContent_def x_not_blank blank_Nil
        content_str content_Nil intro: exI [of _ KeyB])
  have 2: "hasContent only_base_page (primary only_base_page)
           \<and> (\<forall>k. k \<noteq> primary only_base_page \<longrightarrow> \<not> hasContent only_base_page k)"
    by (simp add: only_base_page_def demo_page_def hasContent_def x_not_blank blank_Nil
        content_str content_Nil)
  have 3: "\<forall>k. \<not> hasContent empty_page k"
    by (simp add: empty_page_def demo_page_def hasContent_def blank_Nil content_Nil)
  show ?thesis
    using handleDiff_validation [of only_other_page demo_runtime]
      handleDiff_validation [of only_base_page demo_runtime]
      handleDiff_validation [of empty_page demo_runtime] 1 2 3
    by simp
qed

text \<open>
  Claim C1. On a page that passes validation the status is identical exactly when
  every comparison of the base with a candidate, on the formatted page, is identical.
  With jsdiff and diff2html loaded the status is otherwise changed and names the number
  of comparisons; that number, which is also the number of panels in the output
  container whenever the loop ends without an exception, is the number of editors other
  than the base that have content. With \<^verbatim>\<open>x\<close> in all three editors and base A the
  status is identical and two comparisons are shown, in every runtime.
\<close>

theorem handleDiff_aggregate:
  assumes "hasContent pg (primary pg)" and "othersWithContent pg \<noteq> []"
  shows "(status_bar (handleDiff rt pg) = Some (Success NoDifferencesFound) \<longleftrightarrow>
            (\<forall>k\<in>set (othersWithContent pg).
               snd (comparison rt (preformatted rt pg) k) = Inr \<lparr>identical = True\<rparr>))
       \<and> (Diff rt \<noteq> None \<and> Diff2HtmlUI rt \<noteq> None \<longrightarrow>
            status_bar (handleDiff rt pg) =
              Some (Success
                (if \<forall>k\<in>set (othersWithContent pg).
                      snd (comparison rt (preformatted rt pg) k) = Inr \<lparr>identical = True\<rparr>
                 then NoDifferencesFound
                 else DiffComputed (length (othersWithContent pg))))
            \<and> length (container (handleDiff rt pg)) = length (othersWithContent pg))
       \<and> (status_bar (handleDiff rt pg) = Some (Success NoDifferencesFound) \<longrightarrow>
            length (container (handleDiff rt pg)) = length (othersWithContent pg))
       \<and> length (othersWithContent pg) = card {k. k \<noteq> primary pg \<and> hasContent pg k}
       \<and> ((\<forall>k. getEditorContent (editors pg k) = str ''x'') \<and> primary pg = KeyA \<longrightarrow>
            status_bar (handleDiff rt pg) = Some (Success NoDifferencesFound)
            \<and> length (container (handleDiff rt pg)) = 2)"
proof -
  let ?rs = "map (\<lambda>k. snd (comparison rt (preformatted rt pg) k)) (othersWithContent pg)"
  let ?all = "\<forall>k\<in>set (othersWithContent pg).
               snd (comparison rt (preformatted rt pg) k) = Inr \<lparr>identical = True\<rparr>"
  obtain res where res: "snd res = aggregate ?rs True"
    and cnt: "\<forall>b. snd res = Inr b \<longrightarrow> length (container (fst res)) = length (othersWithContent pg)"
    and hd: "handleDiff rt pg =
               (case snd res of
                  Inl err \<Rightarrow> showStatus (Error (Thrown err)) (fst res)
                | Inr allIdentical \<Rightarrow>
                    if allIdentical then showStatus (Success NoDifferencesFound) (fst res)
                    else showStatus (Success (DiffComputed (length (othersWithContent pg))))
                           (fst res))"
    using handleDiff_results [OF assms, of rt] by blast
  have all: "snd res = Inr True \<longleftrightarrow> ?all"
    by (simp add: res aggregate_all)
  have st: "status_bar (handleDiff rt pg) = Some (Success NoDifferencesFound) \<longleftrightarrow> snd res = Inr True"
    by (cases "snd res") (auto simp: hd)
  have c1: "status_bar (handleDiff rt pg) = Some (Success NoDifferencesFound) \<longleftrightarrow> ?all"
    using st all by simp
  have c3: "status_bar (handleDiff rt pg) = Some (Success NoDifferencesFound) \<longrightarrow>
            length (container (handleDiff rt pg)) = length (othersWithContent pg)"
    using st cnt by (auto simp: hd)
  have c2: "status_bar (handleDiff rt pg) =
              Some (Success (if ?all then NoDifferencesFound
                             else DiffComputed (length (othersWithContent pg))))
            \<and> length (container (handleDiff rt pg)) = length (othersWithContent pg)"
    if libs: "Diff rt \<noteq> None \<and> Diff2HtmlUI rt \<noteq> None"
  proof -
    have "\<forall>r\<in>set ?rs. \<exists>x. r = Inr x"
      using libs by (auto simp: comparison_outcome)
    then have "snd res = Inr ?all"
      using aggregate_total [of ?rs True] by (simp add: res)
    then show ?thesis
      using cnt by (auto simp: hd)
  qed
  have c5: "status_bar (handleDiff rt pg) = Some (Success NoDifferencesFound)
            \<and> length (container (handleDiff rt pg)) = 2"
    if x: "(\<forall>k. getEditorContent (editors pg k) = str ''x'') \<and> primary pg = KeyA"
  proof -
    have "hasContent pg k" for k
      using x by (simp add: hasContent_def x_not_blank)
    moreover have "editors pg k = setEditorContent (str ''x'')" for k
      using x set_get [of "editors pg k"] by simp
    ultimately have "editors (preformatted rt pg) k
                 = formatted_or_raw rt (diff_language pg) (setEditorContent (str ''x''))" for k
      by (simp add: preformatted_eq)
    then have ?all
      by (simp add: comparison_outcome preformatted_fields)
    moreover have "length (othersWithContent pg) = 2"
      using x by (simp add: othersWithContent_def otherKeys_def allKeys_def hasContent_def x_not_blank)
    ultimately show ?thesis
      using c1 c3 by simp
  qed
  show ?thesis
    using c1 c2 c3 c5 length_othersWithContent [of pg] by blast
qed

lemma demo_format_one:
  "formatCode demo_runtime (str ''1'') (str ''json'') \<lparr>sqlDialect = None\<rparr> = Inr (str ''1'' @ [NL])"
  by (simp add: formatCode_json demo_blank formatJSON_def tryPrettier_def demo_parse_one
      demo_runtime_fields)

lemma demo_format_b:
  "formatCode demo_runtime (str ''b'') (str ''json'') \<lparr>sqlDialect = None\<rparr>
     = Inl (InvalidJSON (str ''Unexpected token''))"
  by (simp add: formatCode_json demo_blank formatJSON_def tryPrettier_def demo_parse_b
      demo_runtime_fields)

lemma mixed_page_facts:
  "getEditorContent (editors mixed_page KeyA) = str ''1''"
  "getEditorContent (editors mixed_page KeyB) = str ''b''"
  "getEditorContent (editors mixed_page KeyC) = []"
  "hasContent mixed_page KeyA" "hasContent mixed_page KeyB" "\<not> hasContent mixed_page KeyC"
  "primary mixed_page = KeyA" "diff_language mixed_page = str ''json''"
  "othersWithContent mixed_page = [KeyB]"
  by (simp_all add: mixed_page_def demo_page_def hasContent_def othersWithContent_def
      otherKeys_def allKeys_def content_str content_Nil demo_blank blank_Nil)

lemma mixed_page_formatted:
  "getEditorContent (editors (preformatted demo_runtime mixed_page) KeyA) = str ''1'' @ [NL]"
  "getEditorContent (editors (preformatted demo_runtime mixed_page) KeyB) = str ''b''"
  "getEditorContent (editors (preformatted demo_runtime mixed_page) KeyC) = []"
  by (simp_all add: editors_preformatted mixed_page_facts demo_format_one demo_format_b)
    (simp add: get_set_no_CR str_def)

lemma mixed_page_differs:
  "snd (comparison demo_runtime (preformatted demo_runtime mixed_page) KeyB)
     \<noteq> Inr \<lparr>identical = True\<rparr>"
  by (simp add: comparison_outcome preformatted_fields mixed_page_facts mixed_page_formatted
      demo_blank)
    (simp add: demo_runtime_def str_def)

lemma ab_page_facts:
  "getEditorContent (editors ab_page KeyA) = str ''a''"
  "getEditorContent (editors ab_page KeyB) = str ''b''"
  "hasContent ab_page KeyA" "hasContent ab_page KeyB"
  "primary ab_page = KeyA" "diff_language ab_page = str ''sql''"
  "othersWithContent ab_page = [KeyB]"
  "trim (str ''a'') \<noteq> []"
proof -
  show nb: "trim (str ''a'') \<noteq> []"
    by (simp add: trim_def trimEnd_def strip_trailing_def isWhiteSpace_def str_def)
  show "getEditorContent (editors ab_page KeyA) = str ''a''"
    "getEditorContent (editors ab_page KeyB) = str ''b''"
    by (simp_all add: ab_page_def content_str)
  show "hasContent ab_page KeyA" "hasContent ab_page KeyB"
    by (simp_all add: ab_page_def hasContent_def content_str nb demo_blank)
  show "primary ab_page = KeyA" "diff_language ab_page = str ''sql''"
    by (simp_all add: ab_page_def demo_page_def)
  show "othersWithContent ab_page = [KeyB]"
    by (simp add: ab_page_def demo_page_def othersWithContent_def otherKeys_def allKeys_def
        hasContent_def content_str content_Nil nb demo_blank blank_Nil)
qed

lemma ab_page_same:
  "snd (comparison mixed_breaks_runtime (preformatted mixed_breaks_runtime ab_page) KeyB)
     = Inr \<lparr>identical = True\<rparr>"
proof -
  have f: "sqlFormatter mixed_breaks_runtime =
     Some (\<lambda>code options. if code = str ''a'' then Inr (str ''x'' @ [CR, NL] @ str ''y'')
                           else Inr (str ''x'' @ [NL] @ str ''y''))"
    by (simp add: mixed_breaks_runtime_def)
  have a: "formatCode mixed_breaks_runtime (str ''a'') (str ''sql'') \<lparr>sqlDialect = None\<rparr>
             = Inr (str ''x'' @ [CR, NL] @ str ''y'')"
    by (simp add: formatCode_sql ab_page_facts formatSQL_def f call_def)
  have b: "formatCode mixed_breaks_runtime (str ''b'') (str ''sql'') \<lparr>sqlDialect = None\<rparr>
             = Inr (str ''x'' @ [NL] @ str ''y'')"
    by (simp add: formatCode_sql demo_blank formatSQL_def f call_def) (simp add: str_def)
  have g: "getEditorContent (setEditorContent (str ''x'' @ [CR, NL] @ str ''y''))
             = getEditorContent (setEditorContent (str ''x'' @ [NL] @ str ''y''))"
    by (simp add: get_set str_def)
  show ?thesis
    using g
    by (simp add: comparison_outcome preformatted_fields editors_preformatted ab_page_facts a b)
qed

text \<open>
  The theorem on the page with \<^verbatim>\<open>x\<close> in all three editors, on a page whose one
  candidate differs from the base, and on a page whose two formatted texts differ in
  their line breaks only, which the editors take away.
\<close>

theorem handleDiff_aggregate_witness:
  "status_bar (handleDiff demo_runtime demo_page) = Some (Success NoDifferencesFound)
   \<and> length (container (handleDiff demo_runtime demo_page)) = 2
   \<and> card {k. k \<noteq> primary demo_page \<and> hasContent demo_page k} = 2
   \<and> status_bar (handleDiff demo_runtime mixed_page) = Some (Success (DiffComputed 1))
   \<and> length (container (handleDiff demo_runtime mixed_page)) = 1
   \<and> status_bar (handleDiff mixed_breaks_runtime ab_page) = Some (Success NoDifferencesFound)"
proof -
  have v: "hasContent demo_page (primary demo_page)"
    by (simp add: demo_page_def hasContent_def x_not_blank content_str)
  have o: "othersWithContent demo_page = [KeyB, KeyC]"
    by (simp add: demo_page_def othersWithContent_def otherKeys_def allKeys_def hasContent_def
        x_not_blank content_str)
  have n: "othersWithContent demo_page \<noteq> []"
    by (simp add: o)
  have x: "(\<forall>k. getEditorContent (editors demo_page k) = str ''x'') \<and> primary demo_page = KeyA"
    by (simp add: demo_page_def content_str)
  have 1: "status_bar (handleDiff demo_runtime demo_page) = Some (Success NoDifferencesFound)
   \<and> length (container (handleDiff demo_runtime demo_page)) = 2
   \<and> card {k. k \<noteq> primary demo_page \<and> hasContent demo_page k} = 2"
    using handleDiff_aggregate [OF v n, of demo_runtime] x o by simp
  have v': "hasContent mixed_page (primary mixed_page)"
    by (simp add: mixed_page_facts)
  have n': "othersWithContent mixed_page \<noteq> []"
    by (simp add: mixed_page_facts)
  have l: "Diff demo_runtime \<noteq> None \<and> Diff2HtmlUI demo_runtime \<noteq> None"
    by (simp add: demo_runtime_def)
  have 2: "status_bar (handleDiff demo_runtime mixed_page) = Some (Success (DiffComputed 1))
   \<and> length (container (handleDiff demo_runtime mixed_page)) = 1"
    using handleDiff_aggregate [OF v' n', of demo_runtime] l mixed_page_differs
    by (simp add: mixed_page_facts)
  have v'': "hasContent ab_page (primary ab_page)"
    by (simp add: ab_page_facts)
  have n'': "othersWithContent ab_page \<noteq> []"
    by (simp add: ab_page_facts)
  have 3: "status_bar (handleDiff mixed_breaks_runtime ab_page) = Some (Success NoDifferencesFound)"
    using handleDiff_aggregate [OF v'' n'', of mixed_breaks_runtime] ab_page_same
    by (simp add: ab_page_facts)
  show ?thesis
    using 1 2 3 by blast
qed

text \<open>
  Claim C3, amended. On a page that passes validation, an editor with content has its
  document replaced by the formatted text when \<open>formatCode\<close> succeeds on it, and read
  back that text has every CRLF and CR turned into LF (so it is the formatted text itself
  when that holds no CR); when \<open>formatCode\<close> fails the document is left as it is, as
  is that of an editor without content. The comparison goes on in either case: the output
  container gets a panel, the status is identical, changed or the absence of jsdiff or
  diff2html, never an error of a formatter, and with both libraries loaded every candidate
  with content is compared.
\<close>

theorem handleDiff_preformat:
  assumes "hasContent pg (primary pg)" and "othersWithContent pg \<noteq> []"
  shows "(\<forall>k. editors (handleDiff rt pg) k =
            (if hasContent pg k
             then (case formatCode rt (getEditorContent (editors pg k)) (diff_language pg)
                          \<lparr>sqlDialect = None\<rparr> of
                     Inr formatted \<Rightarrow> setEditorContent formatted
                   | Inl err \<Rightarrow> editors pg k)
             else editors pg k))
       \<and> (\<forall>formatted. getEditorContent (setEditorContent formatted)
                          = replace_char CR [NL] (replace_crlf formatted)
                      \<and> (CR \<notin> set formatted \<longrightarrow>
                           getEditorContent (setEditorContent formatted) = formatted))
       \<and> 1 \<le> length (container (handleDiff rt pg))
       \<and> (status_bar (handleDiff rt pg) = Some (Success NoDifferencesFound)
          \<or> status_bar (handleDiff rt pg)
              = Some (Success (DiffComputed (length (othersWithContent pg))))
          \<or> status_bar (handleDiff rt pg) = Some (Error (Thrown JsdiffNotLoaded))
          \<or> status_bar (handleDiff rt pg) = Some (Error (Thrown Diff2htmlNotLoaded)))
       \<and> (Diff rt \<noteq> None \<and> Diff2HtmlUI rt \<noteq> None \<longrightarrow>
            length (container (handleDiff rt pg)) = length (othersWithContent pg)
            \<and> (status_bar (handleDiff rt pg) = Some (Success NoDifferencesFound)
               \<or> status_bar (handleDiff rt pg)
                   = Some (Success (DiffComputed (length (othersWithContent pg))))))"
proof -
  let ?rs = "map (\<lambda>k. snd (comparison rt (preformatted rt pg) k)) (othersWithContent pg)"
  obtain res where res: "snd res = aggregate ?rs True"
    and one: "1 \<le> length (container (fst res))"
    and cnt: "\<forall>b. snd res = Inr b \<longrightarrow> length (container (fst res)) = length (othersWithContent pg)"
    and hd: "handleDiff rt pg =
               (case snd res of
                  Inl err \<Rightarrow> showStatus (Error (Thrown err)) (fst res)
                | Inr allIdentical \<Rightarrow>
                    if allIdentical then showStatus (Success NoDifferencesFound) (fst res)
                    else showStatus (Success (DiffComputed (length (othersWithContent pg))))
                           (fst res))"
    using handleDiff_results [OF assms, of rt] by blast
  have c1: "\<forall>k. editors (handleDiff rt pg) k =
            (if hasContent pg k
             then (case formatCode rt (getEditorContent (editors pg k)) (diff_language pg)
                          \<lparr>sqlDialect = None\<rparr> of
                     Inr formatted \<Rightarrow> setEditorContent formatted
                   | Inl err \<Rightarrow> editors pg k)
             else editors pg k)"
    by (simp only: handleDiff_editors [OF assms] editors_preformatted) simp
  have c1b: "\<forall>formatted. getEditorContent (setEditorContent formatted)
                          = replace_char CR [NL] (replace_crlf formatted)
                      \<and> (CR \<notin> set formatted \<longrightarrow>
                           getEditorContent (setEditorContent formatted) = formatted)"
    by (simp add: get_set_unified [symmetric] get_set_no_CR)
  have c2: "1 \<le> length (container (handleDiff rt pg))"
    using one by (cases "snd res") (simp_all add: hd)
  have err: "e' = JsdiffNotLoaded \<or> e' = Diff2htmlNotLoaded" if "snd res = Inl e'" for e'
  proof -
    from that have "Inl e' \<in> set ?rs"
      using aggregate_error [of ?rs True e'] by (simp add: res)
    then show ?thesis
      by (auto simp: comparison_outcome split: if_splits)
  qed
  have c3: "status_bar (handleDiff rt pg) = Some (Success NoDifferencesFound)
          \<or> status_bar (handleDiff rt pg)
              = Some (Success (DiffComputed (length (othersWithContent pg))))
          \<or> status_bar (handleDiff rt pg) = Some (Error (Thrown JsdiffNotLoaded))
          \<or> status_bar (handleDiff rt pg) = Some (Error (Thrown Diff2htmlNotLoaded))"
    using err by (cases "snd res") (auto simp: hd)
  have c4: "length (container (handleDiff rt pg)) = length (othersWithContent pg)
            \<and> (status_bar (handleDiff rt pg) = Some (Success NoDifferencesFound)
               \<or> status_bar (handleDiff rt pg)
                   = Some (Success (DiffComputed (length (othersWithContent pg)))))"
    if libs: "Diff rt \<noteq> None \<and> Diff2HtmlUI rt \<noteq> None"
  proof -
    have "\<forall>r\<in>set ?rs. \<exists>x. r = Inr x"
      using libs by (auto simp: comparison_outcome)
    then obtain b where "snd res = Inr b"
      using aggregate_total [of ?rs True] by (simp add: res)
    then show ?thesis
      using cnt by (auto simp: hd)
  qed
  show ?thesis
    using c1 c1b c2 c3 c4 by blast
qed

lemma sql_page_facts:
  "getEditorContent (editors sql_page k) = str ''select 1''"
  "hasContent sql_page k" "diff_language sql_page = str ''sql''"
  "othersWithContent sql_page \<noteq> []" "sql_dialect sql_page = str ''mysql''"
  "trim (str ''select 1'') \<noteq> []"
proof -
  show nb: "trim (str ''select 1'') \<noteq> []"
    by (simp add: trim_def trimEnd_def strip_trailing_def isWhiteSpace_def str_def)
  show "getEditorContent (editors sql_page k) = str ''select 1''"
    by (simp add: sql_page_def content_str)
  show "hasContent sql_page k"
    by (simp add: sql_page_def hasContent_def content_str nb)
  show "diff_language sql_page = str ''sql''" "sql_dialect sql_page = str ''mysql''"
    by (simp_all add: sql_page_def demo_page_def)
  show "othersWithContent sql_page \<noteq> []"
    by (simp add: sql_page_def demo_page_def othersWithContent_def otherKeys_def allKeys_def
        hasContent_def content_str nb)
qed

text \<open>
  The claim as written fails where a formatter answers with a CRLF line break: the call
  succeeds with the text \<^verbatim>\<open>A\r\nB\<close>, and the editor holds \<^verbatim>\<open>A\nB\<close>, not
  the formatted text.
\<close>

theorem handleDiff_preformat_counterexample:
  "formatCode crlf_runtime (getEditorContent (editors sql_page KeyA)) (diff_language sql_page)
       \<lparr>sqlDialect = None\<rparr> = Inr (str ''A'' @ [CR, NL] @ str ''B'')
   \<and> getEditorContent (editors (handleDiff crlf_runtime sql_page) KeyA) = str ''A'' @ [NL] @ str ''B''
   \<and> getEditorContent (editors (handleDiff crlf_runtime sql_page) KeyA)
       \<noteq> str ''A'' @ [CR, NL] @ str ''B''"
proof -
  have f: "formatCode crlf_runtime (str ''select 1'') (str ''sql'') \<lparr>sqlDialect = None\<rparr>
             = Inr (str ''A'' @ [CR, NL] @ str ''B'')"
    by (simp add: formatCode_sql sql_page_facts formatSQL_def crlf_runtime_def call_def)
  have e: "editors (handleDiff crlf_runtime sql_page) KeyA
             = setEditorContent (str ''A'' @ [CR, NL] @ str ''B'')"
    by (simp add: handleDiff_editors sql_page_facts editors_preformatted f)
  have g: "getEditorContent (setEditorContent (str ''A'' @ [CR, NL] @ str ''B''))
             = str ''A'' @ [NL] @ str ''B''"
    by (simp add: get_set str_def)
  show ?thesis
    using f e g by (simp add: sql_page_facts)
qed

text \<open>
  The amended theorem on a page whose base formats and whose candidate does not.
\<close>

theorem handleDiff_preformat_witness:
  "getEditorContent (editors (handleDiff demo_runtime mixed_page) KeyA) = str ''1'' @ [NL]
   \<and> getEditorContent (editors (handleDiff demo_runtime mixed_page) KeyB) = str ''b''
   \<and> getEditorContent (editors (handleDiff demo_runtime mixed_page) KeyC) = []
   \<and> length (container (handleDiff demo_runtime mixed_page)) = 1
   \<and> status_bar (handleDiff demo_runtime mixed_page) = Some (Success (DiffComputed 1))"
proof -
  have v: "hasContent mixed_page (primary mixed_page)"
    by (simp add: mixed_page_facts)
  have n: "othersWithContent mixed_page \<noteq> []"
    by (simp add: mixed_page_facts)
  have l: "Diff demo_runtime \<noteq> None \<and> Diff2HtmlUI demo_runtime \<noteq> None"
    by (simp add: demo_runtime_def)
  have c: "status_bar (handleDiff demo_runtime mixed_page) \<noteq> Some (Success NoDifferencesFound)"
    using handleDiff_identical_iff [OF v n, of demo_runtime] mixed_page_differs
    by (simp add: mixed_page_facts)
  note t = handleDiff_preformat [OF v n, of demo_runtime]
  have e: "editors (handleDiff demo_runtime mixed_page) KeyA = setEditorContent (str ''1'' @ [NL])
     \<and> editors (handleDiff demo_runtime mixed_page) KeyB = editors mixed_page KeyB
     \<and> editors (handleDiff demo_runtime mixed_page) KeyC = editors mixed_page KeyC"
    using t by (simp add: mixed_page_facts demo_format_one demo_format_b)
  have r: "getEditorContent (setEditorContent (str ''1'' @ [NL])) = str ''1'' @ [NL]"
    by (simp add: get_set_no_CR str_def)
  have s: "length (container (handleDiff demo_runtime mixed_page)) = 1
     \<and> status_bar (handleDiff demo_runtime mixed_page) = Some (Success (DiffComputed 1))"
    using t l c by (simp add: mixed_page_facts)
  show ?thesis
    using e r s by (simp add: mixed_page_facts)
qed

lemma formatEditor_sql_dialect:
  "formatEditor rt lang (pg\<lparr>sql_dialect := d\<rparr>) k = (formatEditor rt lang pg k)\<lparr>sql_dialect := d\<rparr>"
  by (simp add: formatEditor_def split: sum.splits)

lemma formatEditors_sql_dialect:
  "formatEditors rt lang ks (pg\<lparr>sql_dialect := d\<rparr>) = (formatEditors rt lang ks pg)\<lparr>sql_dialect := d\<rparr>"
  unfolding formatEditors_def
  by (induction ks arbitrary: pg) (simp_all add: formatEditor_sql_dialect)

lemma cmp_sql_dialect [simp]:
  "cmp rt bc bt mode lang (pg\<lparr>sql_dialect := d\<rparr>) k = cmp rt bc bt mode lang pg k"
  by (simp add: cmp_def getDiffEditorTitle_def)

lemma panel_of_sql_dialect [simp]: "panel_of bt (pg\<lparr>sql_dialect := d\<rparr>) k el = panel_of bt pg k el"
  by (simp add: panel_of_def getDiffEditorTitle_def)

lemma compareEditors_sql_dialect:
  "compareEditors rt bc bt mode lang ks b (pg\<lparr>sql_dialect := d\<rparr>)
     = (let r = compareEditors rt bc bt mode lang ks b pg in ((fst r)\<lparr>sql_dialect := d\<rparr>, snd r))"
proof (induction ks arbitrary: b pg)
  case Nil
  show ?case by simp
next
  case (Cons k ks)
  have u: "pg\<lparr>sql_dialect := d, container := c\<rparr> = pg\<lparr>container := c, sql_dialect := d\<rparr>" for c
    by simp
  show ?case
    by (cases "snd (cmp rt bc bt mode lang pg k)")
      (simp_all add: compareEditors_Cons Cons u Let_def del: compareEditors.simps)
qed

lemma hasContent_sql_dialect [simp]: "hasContent (pg\<lparr>sql_dialect := d\<rparr>) = hasContent pg"
  by (simp add: hasContent_def fun_eq_iff)

lemma othersWithContent_sql_dialect [simp]:
  "othersWithContent (pg\<lparr>sql_dialect := d\<rparr>) = othersWithContent pg"
  by (simp add: othersWithContent_def otherKeys_def)

lemma keysWithContent_sql_dialect [simp]:
  "keysWithContent (pg\<lparr>sql_dialect := d\<rparr>) = keysWithContent pg"
  by (simp add: keysWithContent_def)

lemma getDiffEditorTitle_sql_dialect [simp]:
  "getDiffEditorTitle (pg\<lparr>sql_dialect := d\<rparr>) = getDiffEditorTitle pg"
  by (simp add: getDiffEditorTitle_def fun_eq_iff)

lemma handleDiff_sql_dialect:
  "handleDiff rt (pg\<lparr>sql_dialect := d\<rparr>) = (handleDiff rt pg)\<lparr>sql_dialect := d\<rparr>"
proof -
  have u: "pg\<lparr>sql_dialect := d, container := []\<rparr> = pg\<lparr>container := [], sql_dialect := d\<rparr>"
    by simp
  show ?thesis
    unfolding handleDiff_def Let_def
    by (simp add: showStatus_def case_prod_beta u formatEditors_sql_dialect
        compareEditors_sql_dialect Let_def split: sum.splits)
qed

text \<open>
  Claim C10. With the language sql, on a page that passes validation, every editor
  with content is formatted by \<open>formatSQL\<close> with the dialect \<^verbatim>\<open>sql\<close>, which
  reaches sql-formatter as its \<^verbatim>\<open>language\<close>; the dialect selected on the page
  has no influence on what the handler does.
\<close>

theorem handleDiff_sql_dialect_ignored:
  assumes "diff_language pg = str ''sql''"
    and "hasContent pg (primary pg)" and "othersWithContent pg \<noteq> []"
  shows "(\<forall>k. editors (handleDiff rt pg) k =
            (if hasContent pg k
             then (case formatSQL rt (getEditorContent (editors pg k)) (str ''sql'') of
                     Inr formatted \<Rightarrow> setEditorContent formatted
                   | Inl err \<Rightarrow> editors pg k)
             else editors pg k))
       \<and> (\<forall>code. formatSQL rt code (str ''sql'') =
            (case sqlFormatter rt of
               None \<Rightarrow> Inl (FormatterNotLoaded SQL)
             | Some format \<Rightarrow>
                 call (format code \<lparr>language = Dialect (str ''sql''), indent = str ''  '',
                                     uppercase = True, linesBetweenQueries = 2\<rparr>)))
       \<and> (\<forall>d. handleDiff rt (pg\<lparr>sql_dialect := d\<rparr>) = (handleDiff rt pg)\<lparr>sql_dialect := d\<rparr>)"
proof -
  have 1: "editors (handleDiff rt pg) k =
            (if hasContent pg k
             then (case formatSQL rt (getEditorContent (editors pg k)) (str ''sql'') of
                     Inr formatted \<Rightarrow> setEditorContent formatted
                   | Inl err \<Rightarrow> editors pg k)
             else editors pg k)" for k
    by (simp add: handleDiff_editors [OF assms(2,3)] editors_preformatted assms(1)
        formatCode_sql hasContent_def)
  have 2: "formatSQL rt code (str ''sql'') =
            (case sqlFormatter rt of
               None \<Rightarrow> Inl (FormatterNotLoaded SQL)
             | Some format \<Rightarrow>
                 call (format code \<lparr>language = Dialect (str ''sql''), indent = str ''  '',
                                     uppercase = True, linesBetweenQueries = 2\<rparr>))" for code
    by (simp add: formatSQL_def languageMap_sql cong: option.case_cong)
  show ?thesis
    using 1 2 handleDiff_sql_dialect by blast
qed

text \<open>
  The theorem on a page whose dialect selector says mysql: the diff handler formats
  with \<^verbatim>\<open>sql\<close>, the format handler with \<^verbatim>\<open>mysql\<close>.
\<close>

theorem handleDiff_sql_dialect_ignored_witness:
  "sql_dialect sql_page = str ''mysql''
   \<and> editors (handleDiff sql_runtime sql_page) KeyA = setEditorContent (str ''sql: select 1'')
   \<and> editors (handleDiff sql_runtime sql_page) KeyB = setEditorContent (str ''sql: select 1'')
   \<and> format_output (handleFormat sql_runtime sql_page) = setEditorContent (str ''mysql: select 1'')"
proof -
  have f: "sqlFormatter sql_runtime = Some (\<lambda>code options. case language options of
             Dialect d \<Rightarrow> Inr (d @ str '': '' @ code)
           | PrototypeMember m \<Rightarrow> Inl m)"
    by (simp add: sql_runtime_def)
  have 1: "editors (handleDiff sql_runtime sql_page) k = setEditorContent (str ''sql: select 1'')"
    for k
    using handleDiff_sql_dialect_ignored [OF sql_page_facts(3) sql_page_facts(2)
        sql_page_facts(4), of sql_runtime] f
    by (simp add: sql_page_facts call_def str_def)
  have m: "languageMap (str ''mysql'') = Dialect (str ''mysql'')"
    by (simp add: languageMap_def languageMap_keys_def)
  have 2: "formatCode sql_runtime (str ''select 1'') (str ''sql'') \<lparr>sqlDialect = Some (str ''mysql'')\<rparr>
             = Inr (str ''mysql: select 1'')"
    by (simp add: formatCode_def sql_page_facts or_else_def formatSQL_def f m call_def)
      (simp add: str_def)
  have 3: "format_output (handleFormat sql_runtime sql_page) = setEditorContent (str ''mysql: select 1'')"
    by (simp add: handleFormat_def sql_page_def demo_page_def 2 showStatus_def content_str)
  show ?thesis
    using 1 3 by (simp add: sql_page_facts)
qed

end
